theory Spec2Isabelle
  imports Main "HOL-Library.Multiset"
begin

section \<open>Shared data model\<close>

text \<open>
  Positions are pairs (row, column) of Python integers. Every exception the modelled
  code can raise is a constructor of \<open>erro\<close>: the source raises \<open>ValueError\<close> with a
  distinct message at each site, and each site gets its own constructor, carrying the
  values the message interpolates. \<open>IndexError\<close> and \<open>KeyError\<close> are the
  exceptions Python itself raises on a bad subscript.

  Correspondence with the names used by the specification:
  \<open>ColisaoComParede\<close> is CollisionError, \<open>ColetaSemObjeto\<close> is NoObjectAdjacentError,
  \<open>EjecaoSemObjeto\<close> is NotCarryingError, \<open>EjecaoForaDaSaida\<close> is NotAtExitError,
  \<open>AlarmeTodasParedes\<close> is TrappedAgentError, \<open>AlarmeBecoSemSaida\<close> is DeadEndError,
  \<open>AlarmeNumeroLeituras\<close> is SensorFaultError, and the five constructors from
  \<open>MapaVazio\<close> to \<open>PosicaoObjetivoObstaculo\<close> are the InvalidInput errors of the
  path search.
\<close>

type_synonym posicao = "int \<times> int"

datatype erro =
    IndexError
  | KeyError
  | NenhumaEntrada
  | MultiplasEntradas "posicao list"
  | EntradasInvalidas nat
  | ObjetosInvalidos nat
  | ComandoInvalido string
  | ColisaoComParede posicao posicao
  | ColetaSemObjeto
  | ErroAoColetar
  | EjecaoSemObjeto
  | EjecaoForaDaSaida
  | MapaVazio
  | PosicaoInicialInvalida posicao
  | PosicaoObjetivoInvalida posicao
  | PosicaoInicialObstaculo posicao
  | PosicaoObjetivoObstaculo posicao
  | AlarmeTodasParedes
  | AlarmeBecoSemSaida
  | AlarmeNumeroLeituras

text \<open>
  Python subscripting \<open>xs[i]\<close> of a list or string: a negative index counts from the
  end, anything else out of range raises \<open>IndexError\<close>.
\<close>

definition indice :: "'a list \<Rightarrow> int \<Rightarrow> erro + 'a" where
  "indice xs i =
     (let n = int (length xs) in
      if 0 \<le> i \<and> i < n then Inr (xs ! nat i)
      else if - n \<le> i \<and> i < 0 then Inr (xs ! nat (n + i))
      else Inl IndexError)"

section \<open>Grid world: \<open>simulador_labirinto.py\<close>, class \<open>AmbienteNavegacao\<close>\<close>

text \<open>
  The attributes of \<open>AmbienteNavegacao\<close>. The maze is a list of strings, one per line,
  exactly as the constructor receives it: lines may have different lengths.
\<close>

record ambiente =
  nome_mapa :: string
  labirinto :: "string list"
  posicao_agente :: posicao
  direcao_agente :: int
  objeto_coletado :: bool

subsection \<open>Construction\<close>

text \<open>
  \<open>_localizar_ponto_entrada\<close>: two nested \<open>enumerate\<close> loops collect the coordinates
  of every \<open>E\<close>, in row-major order.
\<close>

definition entradas_da_linha :: "int \<Rightarrow> string \<Rightarrow> posicao list" where
  "entradas_da_linha i linha =
     map (\<lambda>(j, c). (i, int j)) (filter (\<lambda>(j, c). c = CHR ''E'') (enumerate 0 linha))"

definition entradas_encontradas :: "string list \<Rightarrow> posicao list" where
  "entradas_encontradas lab =
     concat (map (\<lambda>(i, linha). entradas_da_linha (int i) linha) (enumerate 0 lab))"

definition localizar_ponto_entrada :: "string list \<Rightarrow> erro + posicao" where
  "localizar_ponto_entrada lab =
     (let es = entradas_encontradas lab in
      if length es = 0 then Inl NenhumaEntrada
      else if length es > 1 then Inl (MultiplasEntradas es)
      else Inr (hd es))"

definition calcular_orientacao_inicial :: "string list \<Rightarrow> posicao \<Rightarrow> int" where
  "calcular_orientacao_inicial lab p =
     (if fst p = 0 then 2
      else if fst p = int (length lab) - 1 then 0
      else if snd p = 0 then 1
      else 3)"

definition validar_integridade_mapa :: "string list \<Rightarrow> erro option" where
  "validar_integridade_mapa lab =
     (let contador_entradas = sum_list (map (\<lambda>linha. count_list linha (CHR ''E'')) lab);
          contador_objetos =
            sum_list (map (\<lambda>linha. count_list linha (CHR ''H'') + count_list linha (CHR ''@'')) lab)
      in if contador_entradas \<noteq> 1 then Some (EntradasInvalidas contador_entradas)
         else if contador_objetos \<noteq> 1 then Some (ObjetosInvalidos contador_objetos)
         else None)"

text \<open>
  \<open>__init__\<close> on a map given as a list (the file branch only reads the lines from disk
  first). The attributes are set in the order of the source; any exception aborts the
  construction.
\<close>

definition construir :: "string list \<Rightarrow> erro + ambiente" where
  "construir mapa =
     (case localizar_ponto_entrada mapa of
        Inl e \<Rightarrow> Inl e
      | Inr entrada \<Rightarrow>
          (case validar_integridade_mapa mapa of
             Some e \<Rightarrow> Inl e
           | None \<Rightarrow>
               Inr \<lparr> nome_mapa = ''mapa_teste'', labirinto = mapa, posicao_agente = entrada,
                     direcao_agente = calcular_orientacao_inicial mapa entrada,
                     objeto_coletado = False \<rparr>))"

subsection \<open>Sensing\<close>

text \<open>
  \<open>obter_leituras_sensores_proximidade\<close>. The dictionary \<open>direcoes_relativas\<close> has
  the keys 0 to 3; any other orientation raises \<open>KeyError\<close>. The bounds test compares
  the column with the length of the \<^emph>\<open>first\<close> line, then subscripts the line of the
  sensed cell; Python evaluates the conjunction left to right, so \<open>labirinto[0]\<close> is
  only read when the maze has a row.
\<close>

definition direcoes_relativas :: "int \<Rightarrow> erro + (int \<times> int) list" where
  "direcoes_relativas d =
     (if d = 0 then Inr [(-1, -1), (-1, 0), (-1, 1)]
      else if d = 1 then Inr [(-1, 1), (0, 1), (1, 1)]
      else if d = 2 then Inr [(1, 1), (1, 0), (1, -1)]
      else if d = 3 then Inr [(1, -1), (0, -1), (-1, -1)]
      else Inl KeyError)"

definition ler_celula :: "string list \<Rightarrow> posicao \<Rightarrow> int \<times> int \<Rightarrow> erro + string" where
  "ler_celula lab p delta =
     (let nova_linha = fst p + fst delta; nova_coluna = snd p + snd delta in
      if 0 \<le> nova_linha \<and> nova_linha < int (length lab) \<and>
         0 \<le> nova_coluna \<and> nova_coluna < int (length (lab ! 0))
      then
        (case indice (lab ! nat nova_linha) nova_coluna of
           Inl e \<Rightarrow> Inl e
         | Inr conteudo_celula \<Rightarrow>
             if conteudo_celula \<in> {CHR ''*'', CHR ''X''} then Inr ''PAREDE''
             else if conteudo_celula \<in> {CHR ''H'', CHR ''@''} then Inr ''HUMANO''
             else Inr ''VAZIO'')
      else Inr ''PAREDE'')"

fun ler_sensores :: "string list \<Rightarrow> posicao \<Rightarrow> (int \<times> int) list \<Rightarrow> string list \<Rightarrow> erro + string list" where
  "ler_sensores lab p [] leituras_sensores = Inr leituras_sensores"
| "ler_sensores lab p (delta # direcoes) leituras_sensores =
     (case ler_celula lab p delta of
        Inl e \<Rightarrow> Inl e
      | Inr leitura \<Rightarrow> ler_sensores lab p direcoes (leituras_sensores @ [leitura]))"

definition obter_leituras_sensores_proximidade :: "ambiente \<Rightarrow> erro + string list" where
  "obter_leituras_sensores_proximidade s =
     (case direcoes_relativas (direcao_agente s) of
        Inl e \<Rightarrow> Inl e
      | Inr direcoes \<Rightarrow> ler_sensores (labirinto s) (posicao_agente s) direcoes [])"

subsection \<open>Commands\<close>

text \<open>
  A command returns the exception it raised, if any, together with the state the
  object is left in: \<open>(None, s')\<close> is a normal return.
\<close>

definition direcoes_movimento :: "(int \<times> int) list" where
  "direcoes_movimento = [(-1, 0), (0, 1), (1, 0), (0, -1)]"

definition avancar_agente :: "ambiente \<Rightarrow> erro option \<times> ambiente" where
  "avancar_agente s =
     (case indice direcoes_movimento (direcao_agente s) of
        Inl e \<Rightarrow> (Some e, s)
      | Inr delta \<Rightarrow>
          (let nova_linha = fst (posicao_agente s) + fst delta;
               nova_coluna = snd (posicao_agente s) + snd delta;
               colisao = ColisaoComParede (posicao_agente s) (nova_linha, nova_coluna)
           in if 0 \<le> nova_linha \<and> nova_linha < int (length (labirinto s)) \<and>
                 0 \<le> nova_coluna \<and> nova_coluna < int (length (labirinto s ! 0))
              then
                (case indice (labirinto s ! nat nova_linha) nova_coluna of
                   Inl e \<Rightarrow> (Some e, s)
                 | Inr c \<Rightarrow>
                     if c \<notin> {CHR ''*'', CHR ''X''}
                     then (None, s\<lparr>posicao_agente := (nova_linha, nova_coluna)\<rparr>)
                     else (Some colisao, s))
              else (Some colisao, s)))"

definition girar_agente :: "ambiente \<Rightarrow> erro option \<times> ambiente" where
  "girar_agente s = (None, s\<lparr>direcao_agente := (direcao_agente s + 1) mod 4\<rparr>)"

text \<open>
  \<open>_coletar_objeto\<close>. The slices \<open>linha[:c]\<close> and \<open>linha[c + 1:]\<close> are Python
  slices, written out for a negative bound as well.
\<close>

definition direcoes_frente :: "int \<Rightarrow> erro + int \<times> int" where
  "direcoes_frente d =
     (if d = 0 then Inr (-1, 0)
      else if d = 1 then Inr (0, 1)
      else if d = 2 then Inr (1, 0)
      else if d = 3 then Inr (0, -1)
      else Inl KeyError)"

definition fatia_ate :: "'a list \<Rightarrow> int \<Rightarrow> 'a list" where
  "fatia_ate xs c = (if 0 \<le> c then take (nat c) xs else take (nat (int (length xs) + c)) xs)"

definition fatia_desde :: "'a list \<Rightarrow> int \<Rightarrow> 'a list" where
  "fatia_desde xs c = (if 0 \<le> c then drop (nat c) xs else drop (nat (int (length xs) + c)) xs)"

definition atribuir :: "'a list \<Rightarrow> int \<Rightarrow> 'a \<Rightarrow> 'a list" where
  "atribuir xs i v = (if 0 \<le> i then xs[nat i := v] else xs[nat (int (length xs) + i) := v])"

definition coletar_objeto :: "ambiente \<Rightarrow> erro option \<times> ambiente" where
  "coletar_objeto s =
     (case obter_leituras_sensores_proximidade s of
        Inl e \<Rightarrow> (Some e, s)
      | Inr leituras \<Rightarrow>
          if length leituras \<ge> 2 \<and> leituras ! 1 = ''HUMANO'' then
            (case direcoes_frente (direcao_agente s) of
               Inl e \<Rightarrow> (Some e, s)
             | Inr delta \<Rightarrow>
                 (let linha_objeto = fst (posicao_agente s) + fst delta;
                      coluna_objeto = snd (posicao_agente s) + snd delta
                  in case indice (labirinto s) linha_objeto of
                       Inl e \<Rightarrow> (Some e, s)
                     | Inr linha_atual \<Rightarrow>
                         (case indice linha_atual coluna_objeto of
                            Inl e \<Rightarrow> (Some e, s)
                          | Inr c \<Rightarrow>
                              if c \<in> {CHR ''H'', CHR ''@''} then
                                (None,
                                 s\<lparr>objeto_coletado := True,
                                   labirinto :=
                                     atribuir (labirinto s) linha_objeto
                                       (fatia_ate linha_atual coluna_objeto @ '' '' @
                                        fatia_desde linha_atual (coluna_objeto + 1))\<rparr>)
                              else (Some ErroAoColetar, s))))
          else (Some ColetaSemObjeto, s))"

text \<open>
  \<open>_verificar_posicao_saida\<close>: the disjunction is evaluated left to right, so the first
  line is only subscripted when the three earlier tests fail.
\<close>

definition verificar_posicao_saida :: "ambiente \<Rightarrow> erro + bool" where
  "verificar_posicao_saida s =
     (let linha = fst (posicao_agente s); coluna = snd (posicao_agente s) in
      if linha = 0 \<or> linha = int (length (labirinto s)) - 1 \<or> coluna = 0 then Inr True
      else
        (case indice (labirinto s) 0 of
           Inl e \<Rightarrow> Inl e
         | Inr primeira \<Rightarrow> Inr (coluna = int (length primeira) - 1)))"

definition ejetar_objeto :: "ambiente \<Rightarrow> erro option \<times> ambiente" where
  "ejetar_objeto s =
     (if \<not> objeto_coletado s then (Some EjecaoSemObjeto, s)
      else
        (case verificar_posicao_saida s of
           Inl e \<Rightarrow> (Some e, s)
         | Inr na_saida \<Rightarrow>
             if \<not> na_saida then (Some EjecaoForaDaSaida, s)
             else (None, s\<lparr>objeto_coletado := False\<rparr>)))"

definition executar_comando_navegacao :: "ambiente \<Rightarrow> string \<Rightarrow> erro option \<times> ambiente" where
  "executar_comando_navegacao s comando =
     (if comando = ''A'' then avancar_agente s
      else if comando = ''G'' then girar_agente s
      else if comando = ''P'' then coletar_objeto s
      else if comando = ''E'' then ejetar_objeto s
      else (Some (ComandoInvalido comando), s))"

section \<open>Post-collection validation: \<open>robo_resgate.py\<close>\<close>

text \<open>
  \<open>_validar_estado_pos_coleta\<close> of \<open>AgenteNavegacaoInteligente\<close>. It reads the sensors
  once and runs three checks in the order of the source; the calls to the activity log
  are left out, they do not change the environment. \<open>None\<close> is a normal return.
\<close>

definition validar_estado_pos_coleta :: "ambiente \<Rightarrow> erro option" where
  "validar_estado_pos_coleta s =
     (if \<not> objeto_coletado s then None
      else
        (case obter_leituras_sensores_proximidade s of
           Inl e \<Rightarrow> Some e
         | Inr leituras \<Rightarrow>
             if length leituras \<ge> 3 \<and> list_all (\<lambda>leitura. leitura = ''PAREDE'') leituras
             then Some AlarmeTodasParedes
             else
               (let espacos_livres = length (filter (\<lambda>leitura. leitura = ''VAZIO'') leituras) in
                if espacos_livres = 0 then Some AlarmeBecoSemSaida
                else if length leituras \<noteq> 3 then Some AlarmeNumeroLeituras
                else None)))"

text \<open>
  The invariant of the agent position: it addresses a cell that exists in the maze
  (the row exists and is long enough) and that cell is not a wall.
\<close>

definition posicao_valida :: "ambiente \<Rightarrow> bool" where
  "posicao_valida s =
     (let linha = fst (posicao_agente s); coluna = snd (posicao_agente s) in
      0 \<le> linha \<and> linha < int (length (labirinto s)) \<and>
      0 \<le> coluna \<and> coluna < int (length (labirinto s ! nat linha)) \<and>
      labirinto s ! nat linha ! nat coluna \<notin> {CHR ''*'', CHR ''X''})"

section \<open>Properties of the grid world\<close>

subsection \<open>Sensor readings\<close>

lemma ler_sensores_length:
  "ler_sensores lab p ds acc = Inr r \<Longrightarrow> length r = length acc + length ds"
  by (induction ds arbitrary: acc) (auto split: sum.splits)

lemma ler_celula_valores:
  "ler_celula lab p d = Inr r \<Longrightarrow> r \<in> {''PAREDE'', ''VAZIO'', ''HUMANO''}"
  by (auto simp: ler_celula_def Let_def split: sum.splits if_splits)

lemma ler_sensores_valores:
  "ler_sensores lab p ds acc = Inr r \<Longrightarrow> set acc \<subseteq> {''PAREDE'', ''VAZIO'', ''HUMANO''}
     \<Longrightarrow> set r \<subseteq> {''PAREDE'', ''VAZIO'', ''HUMANO''}"
proof (induction ds arbitrary: acc)
  case Nil then show ?case by simp
next
  case (Cons d ds)
  then obtain x where x: "ler_celula lab p d = Inr x" and r: "ler_sensores lab p ds (acc @ [x]) = Inr r"
    by (auto split: sum.splits)
  from ler_celula_valores[OF x] Cons.prems(2) have "set (acc @ [x]) \<subseteq> {''PAREDE'', ''VAZIO'', ''HUMANO''}"
    by auto
  from Cons.IH[OF r this] show ?case .
qed

lemma direcoes_relativas_length: "direcoes_relativas d = Inr ds \<Longrightarrow> length ds = 3"
  by (auto simp: direcoes_relativas_def split: if_splits)

lemma leituras_tres: "obter_leituras_sensores_proximidade s = Inr r \<Longrightarrow> length r = 3"
  by (auto simp: obter_leituras_sensores_proximidade_def split: sum.splits
      dest!: ler_sensores_length direcoes_relativas_length)


lemma ler_celula_erro: "ler_celula lab p d = Inl e \<Longrightarrow> e = IndexError"
  by (auto simp: ler_celula_def Let_def indice_def split: sum.splits if_splits)

lemma ler_sensores_erro: "ler_sensores lab p ds acc = Inl e \<Longrightarrow> e = IndexError"
  by (induction ds arbitrary: acc) (auto split: sum.splits dest: ler_celula_erro)

lemma leituras_erro: "obter_leituras_sensores_proximidade s = Inl e \<Longrightarrow> e = IndexError \<or> e = KeyError"
  by (auto simp: obter_leituras_sensores_proximidade_def direcoes_relativas_def
      split: sum.splits if_splits dest: ler_sensores_erro)

lemma validar_nunca: "validar_estado_pos_coleta s \<noteq> Some AlarmeNumeroLeituras"
  by (auto simp: validar_estado_pos_coleta_def Let_def split: sum.splits
      dest: leituras_tres leituras_erro)

lemma validar_casos:
  "obter_leituras_sensores_proximidade s = Inr r \<Longrightarrow>
   validar_estado_pos_coleta s \<in> {None, Some AlarmeTodasParedes, Some AlarmeBecoSemSaida}"
  by (auto simp: validar_estado_pos_coleta_def Let_def split: sum.splits dest: leituras_tres)

lemma forma_nth:
  assumes "map length lab = map length lab'"
  shows "length lab = length lab'" and "i < length lab \<Longrightarrow> length (lab ! i) = length (lab' ! i)"
proof -
  show l: "length lab = length lab'" using assms by (metis length_map)
  show "i < length lab \<Longrightarrow> length (lab ! i) = length (lab' ! i)"
    using assms l by (metis nth_map)
qed

lemma ler_celula_forma:
  assumes "map length lab = map length lab'" and "ler_celula lab p d = Inr x"
  shows "\<exists>y. ler_celula lab' p d = Inr y"
proof -
  note f = forma_nth[OF assms(1)]
  have z: "length (lab ! 0) = length (lab' ! 0)" if "lab \<noteq> []"
    using f(2)[of 0] that by simp
  show ?thesis
  proof (cases "0 \<le> fst p + fst d \<and> fst p + fst d < int (length lab) \<and>
         0 \<le> snd p + snd d \<and> snd p + snd d < int (length (lab ! 0))")
    case fora: False
    have "\<not> (0 \<le> fst p + fst d \<and> fst p + fst d < int (length lab') \<and>
         0 \<le> snd p + snd d \<and> snd p + snd d < int (length (lab' ! 0)))"
    proof (cases "lab = []")
      case True
      then have "lab' = []" using f(1) by simp
      then show ?thesis by simp
    next
      case False
      with fora z f(1) show ?thesis by simp
    qed
    then show ?thesis unfolding ler_celula_def Let_def by (subst if_not_P) auto
  next
    case True
    then have n: "nat (fst p + fst d) < length lab" by auto
    from True assms(2) have "snd p + snd d < int (length (lab ! nat (fst p + fst d)))"
      by (auto simp: ler_celula_def Let_def indice_def split: if_splits)
    with f(2)[OF n] True have "\<exists>c. indice (lab' ! nat (fst p + fst d)) (snd p + snd d) = Inr c"
      by (auto simp: indice_def)
    then show ?thesis by (auto simp: ler_celula_def Let_def split: sum.splits)
  qed
qed

lemma ler_sensores_forma:
  "map length lab = map length lab' \<Longrightarrow> ler_sensores lab p ds acc = Inr r \<Longrightarrow>
   \<exists>r'. ler_sensores lab' p ds acc' = Inr r'"
proof (induction ds arbitrary: acc acc' r)
  case Nil then show ?case by simp
next
  case (Cons d ds)
  then obtain x where x: "ler_celula lab p d = Inr x" and r: "ler_sensores lab p ds (acc @ [x]) = Inr r"
    by (auto split: sum.splits)
  from ler_celula_forma[OF Cons.prems(1) x] obtain y where y: "ler_celula lab' p d = Inr y" by blast
  from Cons.IH[OF Cons.prems(1) r, of "acc' @ [y]"] y show ?case by simp
qed

lemma leituras_forma:
  assumes "map length (labirinto s) = map length (labirinto s')"
    and "posicao_agente s' = posicao_agente s" and "direcao_agente s' = direcao_agente s"
    and "obter_leituras_sensores_proximidade s = Inr r"
  shows "\<exists>r'. obter_leituras_sensores_proximidade s' = Inr r'"
  using assms ler_sensores_forma[OF assms(1)]
  by (auto simp: obter_leituras_sensores_proximidade_def split: sum.splits)



lemma leitura_frente:
  assumes "obter_leituras_sensores_proximidade s = Inr r" and "r ! 1 = ''HUMANO''"
  shows "\<exists>delta. direcoes_frente (direcao_agente s) = Inr delta \<and> delta \<noteq> (0, 0) \<and>
           ler_celula (labirinto s) (posicao_agente s) delta = Inr ''HUMANO''"
  using assms
  by (auto simp: obter_leituras_sensores_proximidade_def direcoes_relativas_def direcoes_frente_def
      split: sum.splits if_splits)
lemma indice_nao_negativo:
  "0 \<le> i \<Longrightarrow> indice xs i = (if i < int (length xs) then Inr (xs ! nat i) else Inl IndexError)"
  by (simp add: indice_def Let_def)

lemma ler_celula_humano:
  assumes "ler_celula lab p d = Inr ''HUMANO''"
  shows "0 \<le> fst p + fst d \<and> fst p + fst d < int (length lab) \<and> 0 \<le> snd p + snd d \<and>
         snd p + snd d < int (length (lab ! nat (fst p + fst d))) \<and>
         lab ! nat (fst p + fst d) ! nat (snd p + snd d) \<in> {CHR ''H'', CHR ''@''}"
proof -
  let ?l = "fst p + fst d" and ?c = "snd p + snd d"
  have b: "0 \<le> ?l \<and> ?l < int (length lab) \<and> 0 \<le> ?c \<and> ?c < int (length (lab ! 0))"
  proof (rule ccontr)
    assume "\<not> ?thesis"
    then have "ler_celula lab p d = Inr ''PAREDE''"
      unfolding ler_celula_def Let_def by (subst if_not_P) auto
    with assms show False by simp
  qed
  then have e: "ler_celula lab p d =
     (case indice (lab ! nat ?l) ?c of Inl e \<Rightarrow> Inl e
      | Inr cc \<Rightarrow> if cc \<in> {CHR ''*'', CHR ''X''} then Inr ''PAREDE''
                 else if cc \<in> {CHR ''H'', CHR ''@''} then Inr ''HUMANO'' else Inr ''VAZIO'')"
    unfolding ler_celula_def Let_def by (subst if_P) auto
  from assms e obtain cc where cc: "indice (lab ! nat ?l) ?c = Inr cc"
    by (cases "indice (lab ! nat ?l) ?c") auto
  with b have r: "?c < int (length (lab ! nat ?l))" "cc = lab ! nat ?l ! nat ?c"
    by (auto simp: indice_nao_negativo split: if_splits)
  from assms e cc have "cc \<in> {CHR ''H'', CHR ''@''}"
    by (simp split: if_splits)
  with b r show ?thesis by simp
qed

lemma fatia_atualiza:
  assumes "0 \<le> c" and "c < int (length xs)"
  shows "fatia_ate xs c @ [v] @ fatia_desde xs (c + 1) = xs[nat c := v]"
proof -
  have n: "nat (c + 1) = Suc (nat c)" using assms by arith
  have l: "nat c < length xs" using assms by arith
  show ?thesis using assms n upd_conv_take_nth_drop[OF l, of v]
    by (simp add: fatia_ate_def fatia_desde_def)
qed

lemma coletar_sucesso:
  assumes "coletar_objeto s = (None, s')"
  shows "\<exists>delta. delta \<noteq> (0, 0) \<and>
           0 \<le> fst (posicao_agente s) + fst delta \<and>
           fst (posicao_agente s) + fst delta < int (length (labirinto s)) \<and>
           0 \<le> snd (posicao_agente s) + snd delta \<and>
           snd (posicao_agente s) + snd delta
             < int (length (labirinto s ! nat (fst (posicao_agente s) + fst delta))) \<and>
           s' = s\<lparr>objeto_coletado := True,
                  labirinto := (labirinto s)[nat (fst (posicao_agente s) + fst delta) :=
                     (labirinto s ! nat (fst (posicao_agente s) + fst delta))
                       [nat (snd (posicao_agente s) + snd delta) := CHR '' '']]\<rparr>"
proof -
  from assms obtain r where r: "obter_leituras_sensores_proximidade s = Inr r" "r ! 1 = ''HUMANO''"
    by (auto simp: coletar_objeto_def split: sum.splits if_splits)
  from leitura_frente[OF r] obtain delta where d: "direcoes_frente (direcao_agente s) = Inr delta"
    "delta \<noteq> (0, 0)" "ler_celula (labirinto s) (posicao_agente s) delta = Inr ''HUMANO''" by blast
  note h = ler_celula_humano[OF d(3)]
  let ?l = "fst (posicao_agente s) + fst delta" and ?c = "snd (posicao_agente s) + snd delta"
  have i1: "indice (labirinto s) ?l = Inr (labirinto s ! nat ?l)" using h by (simp add: indice_nao_negativo)
  have i2: "indice (labirinto s ! nat ?l) ?c = Inr (labirinto s ! nat ?l ! nat ?c)"
    using h by (simp add: indice_nao_negativo)
  have f: "fatia_ate (labirinto s ! nat ?l) ?c @ '' '' @ fatia_desde (labirinto s ! nat ?l) (?c + 1)
        = (labirinto s ! nat ?l)[nat ?c := CHR '' '']"
    using fatia_atualiza[of ?c "labirinto s ! nat ?l" "CHR '' ''"] h by simp
  have "s' = s\<lparr>objeto_coletado := True,
                  labirinto := (labirinto s)[nat ?l := (labirinto s ! nat ?l)[nat ?c := CHR '' '']]\<rparr>"
    using assms r d(1) i1 i2 h f
    by (simp add: coletar_objeto_def Let_def atribuir_def split: if_splits)
  with d(2) h show ?thesis by blast
qed

subsection \<open>The position invariant\<close>

lemma entradas_da_linha_mem:
  "p \<in> set (entradas_da_linha i linha) \<Longrightarrow>
   \<exists>j. p = (i, int j) \<and> j < length linha \<and> linha ! j = CHR ''E''"
  by (auto simp: entradas_da_linha_def in_set_enumerate_eq)

lemma entradas_encontradas_mem:
  "p \<in> set (entradas_encontradas lab) \<Longrightarrow>
   \<exists>i j. p = (int i, int j) \<and> i < length lab \<and> j < length (lab ! i) \<and> lab ! i ! j = CHR ''E''"
  by (auto simp: entradas_encontradas_def in_set_enumerate_eq dest!: entradas_da_linha_mem)

lemma localizar_ponto_entrada_celula:
  assumes "localizar_ponto_entrada lab = Inr p"
  shows "\<exists>i j. p = (int i, int j) \<and> i < length lab \<and> j < length (lab ! i) \<and> lab ! i ! j = CHR ''E''"
proof -
  from assms have "entradas_encontradas lab \<noteq> []" and "p = hd (entradas_encontradas lab)"
    by (auto simp: localizar_ponto_entrada_def Let_def split: if_splits)
  then have "p \<in> set (entradas_encontradas lab)" by simp
  then show ?thesis by (rule entradas_encontradas_mem)
qed

lemma construir_posicao_valida: "construir mapa = Inr s \<Longrightarrow> posicao_valida s"
  by (auto simp: construir_def posicao_valida_def Let_def split: sum.splits option.splits
      dest!: localizar_ponto_entrada_celula)

lemma avancar_posicao_valida: "posicao_valida s \<Longrightarrow> posicao_valida (snd (avancar_agente s))"
  by (auto simp: avancar_agente_def posicao_valida_def Let_def indice_nao_negativo
      split: sum.splits if_splits)

lemma girar_posicao_valida: "posicao_valida s \<Longrightarrow> posicao_valida (snd (girar_agente s))"
  by (simp add: girar_agente_def posicao_valida_def)

lemma ejetar_posicao_valida: "posicao_valida s \<Longrightarrow> posicao_valida (snd (ejetar_objeto s))"
  by (auto simp: ejetar_objeto_def posicao_valida_def Let_def split: sum.splits)

lemma coletar_falha: "coletar_objeto s = (Some e, s') \<Longrightarrow> s' = s"
  by (auto simp: coletar_objeto_def Let_def split: sum.splits if_splits)

lemma coletar_posicao_valida:
  assumes "posicao_valida s"
  shows "posicao_valida (snd (coletar_objeto s))"
proof (cases "coletar_objeto s")
  case (Pair r s')
  show ?thesis
  proof (cases r)
    case (Some e)
    with Pair coletar_falha[of s e s'] assms show ?thesis by simp
  next
    case None
    with Pair have "coletar_objeto s = (None, s')" by simp
    from coletar_sucesso[OF this] obtain delta where d: "delta \<noteq> (0, 0)"
      "0 \<le> fst (posicao_agente s) + fst delta"
      "fst (posicao_agente s) + fst delta < int (length (labirinto s))"
      "0 \<le> snd (posicao_agente s) + snd delta"
      "snd (posicao_agente s) + snd delta
             < int (length (labirinto s ! nat (fst (posicao_agente s) + fst delta)))"
      "s' = s\<lparr>objeto_coletado := True,
                  labirinto := (labirinto s)[nat (fst (posicao_agente s) + fst delta) :=
                     (labirinto s ! nat (fst (posicao_agente s) + fst delta))
                       [nat (snd (posicao_agente s) + snd delta) := CHR '' '']]\<rparr>"
      by blast
    obtain l c where p: "posicao_agente s = (l, c)" by (cases "posicao_agente s")
    obtain dl dc where dd: "delta = (dl, dc)" by (cases delta)
    from assms p have v: "0 \<le> l" "l < int (length (labirinto s))" "0 \<le> c"
      "c < int (length (labirinto s ! nat l))"
      "labirinto s ! nat l ! nat c \<notin> {CHR ''*'', CHR ''X''}"
      by (auto simp: posicao_valida_def Let_def)
    show ?thesis
    proof (cases "nat (l + dl) = nat l")
      case True
      with d dd p v have "dl = 0" "dc \<noteq> 0" by auto
      with d dd p v have "nat (c + dc) \<noteq> nat c" by auto
      with True Pair None d(6) p dd v show ?thesis
        by (simp add: posicao_valida_def Let_def)
    next
      case False
      with Pair None d(6) p dd v show ?thesis
        by (simp add: posicao_valida_def Let_def)
    qed
  qed
qed

lemma executar_posicao_valida:
  "posicao_valida s \<Longrightarrow> posicao_valida (snd (executar_comando_navegacao s comando))"
  by (simp add: executar_comando_navegacao_def avancar_posicao_valida girar_posicao_valida
      coletar_posicao_valida ejetar_posicao_valida)

lemma map_length_atualiza:
  "i < length xs \<Longrightarrow> length r = length (xs ! i) \<Longrightarrow> map length (xs[i := r]) = map length xs"
  by (simp add: map_update list_update_same_conv)

lemma coletar_leituras:
  assumes "coletar_objeto s = (None, s')"
  shows "\<exists>r. obter_leituras_sensores_proximidade s' = Inr r"
proof -
  from assms obtain r where r: "obter_leituras_sensores_proximidade s = Inr r"
    by (auto simp: coletar_objeto_def split: sum.splits if_splits)
  from coletar_sucesso[OF assms] obtain delta where
      "s' = s\<lparr>objeto_coletado := True,
                  labirinto := (labirinto s)[nat (fst (posicao_agente s) + fst delta) :=
                     (labirinto s ! nat (fst (posicao_agente s) + fst delta))
                       [nat (snd (posicao_agente s) + snd delta) := CHR '' '']]\<rparr>"
    and "fst (posicao_agente s) + fst delta < int (length (labirinto s))"
    and "0 \<le> fst (posicao_agente s) + fst delta"
    by blast
  then have "map length (labirinto s) = map length (labirinto s')"
    "posicao_agente s' = posicao_agente s" "direcao_agente s' = direcao_agente s"
    using map_length_atualiza[of "nat (fst (posicao_agente s) + fst delta)" "labirinto s"
        "(labirinto s ! nat (fst (posicao_agente s) + fst delta))
                       [nat (snd (posicao_agente s) + snd delta) := CHR '' '']"]
    by simp_all
  from leituras_forma[OF this r] show ?thesis .
qed


subsection \<open>Behaviour of the commands on a maze without short rows\<close>

text \<open>
  When no line is shorter than the first one, every subscript of the sensing and
  advancing code is in range: sensing returns its three readings and advancing either
  moves or reports the collision.
\<close>

definition sem_linha_curta :: "string list \<Rightarrow> bool" where
  "sem_linha_curta lab = list_all (\<lambda>linha. length (lab ! 0) \<le> length linha) lab"

lemma ler_celula_regular:
  assumes "sem_linha_curta lab"
  shows "\<exists>r. ler_celula lab p d = Inr r"
proof (cases "0 \<le> fst p + fst d \<and> fst p + fst d < int (length lab) \<and>
         0 \<le> snd p + snd d \<and> snd p + snd d < int (length (lab ! 0))")
  case False
  then show ?thesis unfolding ler_celula_def Let_def by (subst if_not_P) auto
next
  case True
  then have "nat (fst p + fst d) < length lab" by auto
  then have "lab ! nat (fst p + fst d) \<in> set lab" by (rule nth_mem)
  with assms have "length (lab ! 0) \<le> length (lab ! nat (fst p + fst d))"
    by (simp add: sem_linha_curta_def list_all_iff)
  with True have "\<exists>c. indice (lab ! nat (fst p + fst d)) (snd p + snd d) = Inr c"
    by (simp add: indice_nao_negativo)
  with True show ?thesis by (auto simp: ler_celula_def Let_def split: sum.splits)
qed

lemma ler_sensores_regular:
  "sem_linha_curta lab \<Longrightarrow> \<exists>r. ler_sensores lab p ds acc = Inr r"
proof (induction ds arbitrary: acc)
  case Nil then show ?case by simp
next
  case (Cons d ds)
  from ler_celula_regular[OF Cons.prems, of p d] obtain x where "ler_celula lab p d = Inr x" by blast
  with Cons.IH[OF Cons.prems, of "acc @ [x]"] show ?case by simp
qed

lemma leituras_regular:
  assumes "sem_linha_curta (labirinto s)" and "direcao_agente s \<in> {0, 1, 2, 3}"
  shows "\<exists>e f d. obter_leituras_sensores_proximidade s = Inr [e, f, d] \<and>
           {e, f, d} \<subseteq> {''PAREDE'', ''VAZIO'', ''HUMANO''}"
proof -
  from assms(2) obtain ds where ds: "direcoes_relativas (direcao_agente s) = Inr ds"
    by (auto simp: direcoes_relativas_def)
  from ler_sensores_regular[OF assms(1), of "posicao_agente s" ds "[]"] obtain r
    where r: "ler_sensores (labirinto s) (posicao_agente s) ds [] = Inr r" by blast
  with ds have o: "obter_leituras_sensores_proximidade s = Inr r"
    by (simp add: obter_leituras_sensores_proximidade_def)
  from leituras_tres[OF o] obtain e f d where efd: "r = [e, f, d]"
    by (cases r; cases "tl r"; cases "tl (tl r)") auto
  from ler_sensores_valores[OF r] have "set r \<subseteq> {''PAREDE'', ''VAZIO'', ''HUMANO''}" by simp
  with o efd show ?thesis by auto
qed

lemma avancar_regular:
  assumes "sem_linha_curta (labirinto s)" and "direcao_agente s \<in> {0, 1, 2, 3}"
  shows "\<exists>alvo. avancar_agente s =
           (if 0 \<le> fst alvo \<and> fst alvo < int (length (labirinto s)) \<and>
               0 \<le> snd alvo \<and> snd alvo < int (length (labirinto s ! 0)) \<and>
               labirinto s ! nat (fst alvo) ! nat (snd alvo) \<notin> {CHR ''*'', CHR ''X''}
            then (None, s\<lparr>posicao_agente := alvo\<rparr>)
            else (Some (ColisaoComParede (posicao_agente s) alvo), s))"
proof -
  from assms(2) obtain delta where d: "indice direcoes_movimento (direcao_agente s) = Inr delta"
    by (auto simp: indice_def direcoes_movimento_def)
  let ?l = "fst (posicao_agente s) + fst delta" and ?c = "snd (posicao_agente s) + snd delta"
  show ?thesis
  proof (cases "0 \<le> ?l \<and> ?l < int (length (labirinto s)) \<and>
         0 \<le> ?c \<and> ?c < int (length (labirinto s ! 0))")
    case False
    then show ?thesis using d
      by (intro exI[of _ "(?l, ?c)"]) (auto simp: avancar_agente_def Let_def)
  next
    case True
    then have "nat ?l < length (labirinto s)" by auto
    then have "labirinto s ! nat ?l \<in> set (labirinto s)" by (rule nth_mem)
    with assms(1) have "length (labirinto s ! 0) \<le> length (labirinto s ! nat ?l)"
      by (simp add: sem_linha_curta_def list_all_iff)
    with True have "indice (labirinto s ! nat ?l) ?c = Inr (labirinto s ! nat ?l ! nat ?c)"
      by (simp add: indice_nao_negativo)
    with True d show ?thesis
      by (intro exI[of _ "(?l, ?c)"]) (auto simp: avancar_agente_def Let_def)
  qed
qed

subsection \<open>Claims about the grid world\<close>

text \<open>
  C9. The command \<open>G\<close> always returns normally and replaces the orientation by
  \<open>(orientation + 1) mod 4\<close>, leaving every other attribute as it was. Starting from
  an orientation in 0..3, four \<open>G\<close> commands in a row give back the starting state.
\<close>

theorem girar_agente_ciclico:
  "executar_comando_navegacao s ''G'' =
     (None, s\<lparr>direcao_agente := (direcao_agente s + 1) mod 4\<rparr>) \<and>
   (direcao_agente s \<in> {0, 1, 2, 3} \<longrightarrow>
      (let g = (\<lambda>a. snd (executar_comando_navegacao a ''G'')) in g (g (g (g s))) = s))"
  by (auto simp: executar_comando_navegacao_def girar_agente_def Let_def)

theorem girar_agente_ciclico_witness:
  "direcao_agente \<lparr>nome_mapa = ''mapa_teste'', labirinto = [''*E*'', ''* *'', ''*@*''],
      posicao_agente = (0, 1), direcao_agente = 2, objeto_coletado = False\<rparr> \<in> {0, 1, 2, 3} \<and>
   (let g = (\<lambda>a. snd (executar_comando_navegacao a ''G'')) in
      g (g (g (g \<lparr>nome_mapa = ''mapa_teste'', labirinto = [''*E*'', ''* *'', ''*@*''],
                  posicao_agente = (0, 1), direcao_agente = 2, objeto_coletado = False\<rparr>))) =
      \<lparr>nome_mapa = ''mapa_teste'', labirinto = [''*E*'', ''* *'', ''*@*''],
       posicao_agente = (0, 1), direcao_agente = 2, objeto_coletado = False\<rparr>)"
proof -
  let ?s = "\<lparr>nome_mapa = ''mapa_teste'', labirinto = [''*E*'', ''* *'', ''*@*''],
      posicao_agente = (0, 1), direcao_agente = 2, objeto_coletado = False\<rparr>"
  have h: "direcao_agente ?s \<in> {0, 1, 2, 3}" by simp
  from girar_agente_ciclico[of ?s] h show ?thesis by blast
qed

text \<open>
  What the command \<open>E\<close> does on a maze with at least one line: it raises the
  not-carrying error when nothing is carried; otherwise it raises the not-at-exit error
  unless the agent is in row 0, in the last row, in column 0 or in the column numbered
  by the length of the \<^emph>\<open>first\<close> line minus one; otherwise it clears the carried flag
  and changes nothing else. A failing command leaves the state as it was.
\<close>

lemma ejetar_objeto_efeito:
  "labirinto s \<noteq> [] \<Longrightarrow>
   executar_comando_navegacao s ''E'' =
     (if \<not> objeto_coletado s then (Some EjecaoSemObjeto, s)
      else if \<not> (fst (posicao_agente s) = 0 \<or>
                 fst (posicao_agente s) = int (length (labirinto s)) - 1 \<or>
                 snd (posicao_agente s) = 0 \<or>
                 snd (posicao_agente s) = int (length (labirinto s ! 0)) - 1)
           then (Some EjecaoForaDaSaida, s)
      else (None, s\<lparr>objeto_coletado := False\<rparr>))"
  by (auto simp: executar_comando_navegacao_def ejetar_objeto_def verificar_posicao_saida_def
      indice_def Let_def)

text \<open>
  C6, on mazes whose first line is shorter than another line. The exit test takes the
  last column to be the last column of the first line, so it is wrong in both
  directions. On the first maze below the constructor puts the agent on the entrance
  at row 1, column 3, the last column of the maze, facing west with the object in
  front; \<open>P\<close> picks the object up, and \<open>E\<close> on the entrance is then refused with the
  not-at-exit error, because column 3 is not column 2. On the second maze the agent
  picks the object up, advances, turns east and advances to row 1, column 2, every
  command succeeding; that cell is in the middle of a line of five cells in a middle
  row, and \<open>E\<close> succeeds there, because column 2 is the last column of the first line.
\<close>

theorem ejetar_largura_da_primeira_linha:
  "construir [''***'', ''* @E'', ''****''] =
     Inr \<lparr>nome_mapa = ''mapa_teste'', labirinto = [''***'', ''* @E'', ''****''],
          posicao_agente = (1, 3), direcao_agente = 3, objeto_coletado = False\<rparr> \<and>
   executar_comando_navegacao
     \<lparr>nome_mapa = ''mapa_teste'', labirinto = [''***'', ''* @E'', ''****''],
      posicao_agente = (1, 3), direcao_agente = 3, objeto_coletado = False\<rparr> ''P'' =
     (None,
      \<lparr>nome_mapa = ''mapa_teste'', labirinto = [''***'', ''*  E'', ''****''],
       posicao_agente = (1, 3), direcao_agente = 3, objeto_coletado = True\<rparr>) \<and>
   executar_comando_navegacao
     \<lparr>nome_mapa = ''mapa_teste'', labirinto = [''***'', ''*  E'', ''****''],
      posicao_agente = (1, 3), direcao_agente = 3, objeto_coletado = True\<rparr> ''E'' =
     (Some EjecaoForaDaSaida,
      \<lparr>nome_mapa = ''mapa_teste'', labirinto = [''***'', ''*  E'', ''****''],
       posicao_agente = (1, 3), direcao_agente = 3, objeto_coletado = True\<rparr>) \<and>
   construir [''*E*'', ''*@  *'', ''*****''] =
     Inr \<lparr>nome_mapa = ''mapa_teste'', labirinto = [''*E*'', ''*@  *'', ''*****''],
          posicao_agente = (0, 1), direcao_agente = 2, objeto_coletado = False\<rparr> \<and>
   foldl (\<lambda>(erros, s) comando.
            (erros @ [fst (executar_comando_navegacao s comando)],
             snd (executar_comando_navegacao s comando)))
     ([], \<lparr>nome_mapa = ''mapa_teste'', labirinto = [''*E*'', ''*@  *'', ''*****''],
           posicao_agente = (0, 1), direcao_agente = 2, objeto_coletado = False\<rparr>)
     [''P'', ''A'', ''G'', ''G'', ''G'', ''A''] =
     ([None, None, None, None, None, None],
      \<lparr>nome_mapa = ''mapa_teste'', labirinto = [''*E*'', ''*   *'', ''*****''],
       posicao_agente = (1, 2), direcao_agente = 1, objeto_coletado = True\<rparr>) \<and>
   executar_comando_navegacao
     \<lparr>nome_mapa = ''mapa_teste'', labirinto = [''*E*'', ''*   *'', ''*****''],
      posicao_agente = (1, 2), direcao_agente = 1, objeto_coletado = True\<rparr> ''E'' =
     (None,
      \<lparr>nome_mapa = ''mapa_teste'', labirinto = [''*E*'', ''*   *'', ''*****''],
       posicao_agente = (1, 2), direcao_agente = 1, objeto_coletado = False\<rparr>)"
  by code_simp

text \<open>
  C8. The agent position addresses an existing cell of the maze that is not a wall:
  this holds for every environment the constructor returns, and every command given to
  \<open>executar_comando_navegacao\<close> (the four commands and any rejected command string)
  leaves it true, whether the command returns normally or raises.
\<close>

theorem posicao_agente_invariante:
  "(construir mapa = Inr s \<longrightarrow> posicao_valida s) \<and>
   (posicao_valida s \<longrightarrow> posicao_valida (snd (executar_comando_navegacao s comando)))"
  using construir_posicao_valida[of mapa s] executar_posicao_valida[of s comando] by blast

theorem posicao_agente_invariante_witness:
  "(let s = \<lparr>nome_mapa = ''mapa_teste'', labirinto = [''*E*'', ''* *'', ''*@*''],
             posicao_agente = (0, 1), direcao_agente = 2, objeto_coletado = False\<rparr>
    in construir [''*E*'', ''* *'', ''*@*''] = Inr s \<and> posicao_valida s \<and>
       posicao_valida (snd (executar_comando_navegacao s ''A'')))"
proof -
  let ?s = "\<lparr>nome_mapa = ''mapa_teste'', labirinto = [''*E*'', ''* *'', ''*@*''],
             posicao_agente = (0, 1), direcao_agente = 2, objeto_coletado = False\<rparr>"
  have c: "construir [''*E*'', ''* *'', ''*@*''] = Inr ?s" by code_simp
  from c posicao_agente_invariante[of "[''*E*'', ''* *'', ''*@*'']" ?s "''A''"]
  have v: "posicao_valida ?s" and w: "posicao_valida (snd (executar_comando_navegacao ?s ''A''))"
    by blast+
  show ?thesis unfolding Let_def by (intro conjI) (rule c v w)+
qed

text \<open>
  C10. Every sensor reading that is returned has exactly three entries, so the
  validation after the collection never raises the wrong-number-of-readings alarm; and in
  the state that a successful \<open>P\<close> command leaves, the sensors do return, so the
  validation there either passes or raises one of the other two alarms.
\<close>

theorem alarme_numero_leituras_inalcancavel:
  "(\<forall>r. obter_leituras_sensores_proximidade s = Inr r \<longrightarrow> length r = 3) \<and>
   validar_estado_pos_coleta s \<noteq> Some AlarmeNumeroLeituras \<and>
   (executar_comando_navegacao s0 ''P'' = (None, s) \<longrightarrow>
      validar_estado_pos_coleta s \<in> {None, Some AlarmeTodasParedes, Some AlarmeBecoSemSaida})"
proof (intro conjI allI impI)
  fix r assume "obter_leituras_sensores_proximidade s = Inr r"
  then show "length r = 3" by (rule leituras_tres)
next
  show "validar_estado_pos_coleta s \<noteq> Some AlarmeNumeroLeituras" by (rule validar_nunca)
next
  assume "executar_comando_navegacao s0 ''P'' = (None, s)"
  then have "coletar_objeto s0 = (None, s)" by (simp add: executar_comando_navegacao_def)
  from coletar_leituras[OF this] obtain r where "obter_leituras_sensores_proximidade s = Inr r"
    by blast
  then show "validar_estado_pos_coleta s \<in> {None, Some AlarmeTodasParedes, Some AlarmeBecoSemSaida}"
    by (rule validar_casos)
qed

theorem alarme_numero_leituras_inalcancavel_witness:
  "(let s0 = \<lparr>nome_mapa = ''mapa_teste'', labirinto = [''*E*'', ''*@*'', ''***''],
              posicao_agente = (0, 1), direcao_agente = 2, objeto_coletado = False\<rparr>;
        s = \<lparr>nome_mapa = ''mapa_teste'', labirinto = [''*E*'', ''* *'', ''***''],
              posicao_agente = (0, 1), direcao_agente = 2, objeto_coletado = True\<rparr>
    in executar_comando_navegacao s0 ''P'' = (None, s) \<and>
       obter_leituras_sensores_proximidade s = Inr [''PAREDE'', ''VAZIO'', ''PAREDE''] \<and>
       length [''PAREDE'', ''VAZIO'', ''PAREDE''] = 3 \<and>
       validar_estado_pos_coleta s \<in> {None, Some AlarmeTodasParedes, Some AlarmeBecoSemSaida})"
proof -
  let ?ini = "\<lparr>nome_mapa = ''mapa_teste'', labirinto = [''*E*'', ''*@*'', ''***''],
              posicao_agente = (0, 1), direcao_agente = 2, objeto_coletado = False\<rparr>"
  let ?s = "\<lparr>nome_mapa = ''mapa_teste'', labirinto = [''*E*'', ''* *'', ''***''],
              posicao_agente = (0, 1), direcao_agente = 2, objeto_coletado = True\<rparr>"
  have p: "executar_comando_navegacao ?ini ''P'' = (None, ?s)"
    by (simp add: executar_comando_navegacao_def coletar_objeto_def
        obter_leituras_sensores_proximidade_def direcoes_relativas_def ler_celula_def indice_def
        direcoes_frente_def atribuir_def fatia_ate_def fatia_desde_def Let_def)
  have l: "obter_leituras_sensores_proximidade ?s = Inr [''PAREDE'', ''VAZIO'', ''PAREDE'']"
    by code_simp
  from p alarme_numero_leituras_inalcancavel[of ?s ?ini]
  have v: "validar_estado_pos_coleta ?s \<in> {None, Some AlarmeTodasParedes, Some AlarmeBecoSemSaida}"
    by blast
  have n: "length [''PAREDE'', ''VAZIO'', ''PAREDE''] = 3" by simp
  show ?thesis unfolding Let_def by (intro conjI) (rule p l n v)+
qed

text \<open>
  C2, on a maze with a short line. The constructor accepts the maze below (one entrance,
  one object); its second line has two cells while the first has three. The agent
  starts at the entrance facing south, the left sensor addresses row 1, column 2, which
  passes the bounds test against the first line and is then read from the shorter
  line: the call raises \<open>IndexError\<close> and returns no reading.
\<close>

theorem leituras_linha_curta:
  "construir [''*E*'', ''* '', ''*@*''] =
     Inr \<lparr>nome_mapa = ''mapa_teste'', labirinto = [''*E*'', ''* '', ''*@*''],
          posicao_agente = (0, 1), direcao_agente = 2, objeto_coletado = False\<rparr> \<and>
   obter_leituras_sensores_proximidade
     \<lparr>nome_mapa = ''mapa_teste'', labirinto = [''*E*'', ''* '', ''*@*''],
      posicao_agente = (0, 1), direcao_agente = 2, objeto_coletado = False\<rparr> = Inl IndexError"
  by code_simp

text \<open>
  C5, on a maze with a short line. The constructor accepts the maze below; the agent
  starts at row 1, column 0, facing east. The cell in front is row 1, column 1, which
  the second line does not have: the command \<open>A\<close> raises \<open>IndexError\<close>, neither the
  collision error nor a move.
\<close>

theorem avancar_linha_curta:
  "construir [''* *'', ''E'', ''*@*''] =
     Inr \<lparr>nome_mapa = ''mapa_teste'', labirinto = [''* *'', ''E'', ''*@*''],
          posicao_agente = (1, 0), direcao_agente = 1, objeto_coletado = False\<rparr> \<and>
   executar_comando_navegacao
     \<lparr>nome_mapa = ''mapa_teste'', labirinto = [''* *'', ''E'', ''*@*''],
      posicao_agente = (1, 0), direcao_agente = 1, objeto_coletado = False\<rparr> ''A'' =
     (Some IndexError,
      \<lparr>nome_mapa = ''mapa_teste'', labirinto = [''* *'', ''E'', ''*@*''],
       posicao_agente = (1, 0), direcao_agente = 1, objeto_coletado = False\<rparr>)"
  by code_simp

section \<open>Sensor-driven exploration: \<open>explorador_simples.py\<close>, class \<open>ExploradorInteligente\<close>\<close>

text \<open>
  The attributes of the explorer. \<open>sistema_log\<close> records whether an activity log is
  attached: with a log, every rotation and every advance is followed by a sensor reading
  (which can raise). The known map is a dictionary from positions to one of the
  characters \<open>E\<close>, \<open>X\<close>, \<open>@\<close> and \<open>.\<close>; the navigation stack is a Python list whose
  top is its last element. Sounds, pauses and printing are left out.
\<close>

record explorador =
  ambiente :: ambiente
  sistema_log :: bool
  mapa_conhecido :: "posicao \<rightharpoonup> char"
  posicoes_visitadas :: "posicao set"
  pilha_navegacao :: "posicao list"
  posicao_objeto :: "posicao option"
  max_iteracoes :: int

definition mapa_direcoes_sensores :: "int \<Rightarrow> erro + (int \<times> int) list" where
  "mapa_direcoes_sensores d =
     (if d = 0 then Inr [(-1, -1), (-1, 0), (-1, 1)]
      else if d = 1 then Inr [(-1, 1), (0, 1), (1, 1)]
      else if d = 2 then Inr [(1, 1), (1, 0), (1, -1)]
      else if d = 3 then Inr [(1, -1), (0, -1), (-1, -1)]
      else Inl KeyError)"

text \<open>
  The loop of \<open>_atualizar_mapa_com_sensores\<close> over \<open>enumerate(direcoes_relativas)\<close>:
  \<open>idx\<close> is the index of the next offset.
\<close>

fun registrar_leituras ::
  "posicao \<Rightarrow> string list \<Rightarrow> int \<Rightarrow> (int \<times> int) list \<Rightarrow> explorador \<Rightarrow> erro + explorador" where
  "registrar_leituras p leituras idx [] e = Inr e"
| "registrar_leituras p leituras idx (delta # direcoes) e =
     (let vizinho = (fst p + fst delta, snd p + snd delta) in
      case indice leituras idx of
        Inl err \<Rightarrow> Inl err
      | Inr celula_lida \<Rightarrow>
          registrar_leituras p leituras (idx + 1) direcoes
            (if celula_lida = ''PAREDE'' then
               e\<lparr>mapa_conhecido := (mapa_conhecido e)(vizinho \<mapsto> CHR ''X'')\<rparr>
             else if celula_lida = ''HUMANO'' then
               e\<lparr>mapa_conhecido := (mapa_conhecido e)(vizinho \<mapsto> CHR ''@''),
                 posicao_objeto := Some vizinho\<rparr>
             else if celula_lida = ''VAZIO'' then
               (if mapa_conhecido e vizinho = None
                then e\<lparr>mapa_conhecido := (mapa_conhecido e)(vizinho \<mapsto> CHR ''.'')\<rparr>
                else e)
             else e))"

definition atualizar_mapa_com_sensores :: "explorador \<Rightarrow> posicao \<Rightarrow> erro + explorador" where
  "atualizar_mapa_com_sensores e posicao_atual =
     (case obter_leituras_sensores_proximidade (ambiente e) of
        Inl err \<Rightarrow> Inl err
      | Inr leituras \<Rightarrow>
          (case mapa_direcoes_sensores (direcao_agente (ambiente e)) of
             Inl err \<Rightarrow> Inl err
           | Inr direcoes \<Rightarrow> registrar_leituras posicao_atual leituras 0 direcoes e))"

definition direcoes_absolutas :: "int \<Rightarrow> erro + (int \<times> int) list" where
  "direcoes_absolutas d =
     (if d = 0 then Inr [(-1, 0), (0, 1), (0, -1)]
      else if d = 1 then Inr [(0, 1), (1, 0), (-1, 0)]
      else if d = 2 then Inr [(1, 0), (0, -1), (0, 1)]
      else if d = 3 then Inr [(0, -1), (-1, 0), (1, 0)]
      else Inl KeyError)"

fun primeira_nao_visitada :: "explorador \<Rightarrow> posicao \<Rightarrow> (int \<times> int) list \<Rightarrow> posicao option" where
  "primeira_nao_visitada e p [] = None"
| "primeira_nao_visitada e p (delta # direcoes) =
     (let nova_posicao = (fst p + fst delta, snd p + snd delta) in
      if nova_posicao \<notin> posicoes_visitadas e \<and> mapa_conhecido e nova_posicao \<noteq> Some (CHR ''X'')
      then Some nova_posicao
      else primeira_nao_visitada e p direcoes)"

definition encontrar_proxima_posicao_para_explorar ::
  "explorador \<Rightarrow> posicao \<Rightarrow> erro + posicao option" where
  "encontrar_proxima_posicao_para_explorar e posicao_atual =
     (case direcoes_absolutas (direcao_agente (ambiente e)) of
        Inl err \<Rightarrow> Inl err
      | Inr direcoes \<Rightarrow> Inr (primeira_nao_visitada e posicao_atual direcoes))"

text \<open>
  \<open>_ajustar_direcao\<close> turns until the orientation equals the target. Nothing in the
  loop bounds the number of turns, so the model is a partial function: \<open>None\<close> stands
  for a loop that never ends. That it does end for the four targets \<open>_mover_para\<close>
  passes is proved below.
\<close>

partial_function (option) ajustar_direcao :: "bool \<Rightarrow> int \<Rightarrow> ambiente \<Rightarrow> (erro + ambiente) option" where
  "ajustar_direcao log direcao_alvo s =
     (if direcao_agente s \<noteq> direcao_alvo then
        (case executar_comando_navegacao s ''G'' of
           (Some err, s') \<Rightarrow> Some (Inl err)
         | (None, s') \<Rightarrow>
             if log then
               (case obter_leituras_sensores_proximidade s' of
                  Inl err \<Rightarrow> Some (Inl err)
                | Inr leituras \<Rightarrow> ajustar_direcao log direcao_alvo s')
             else ajustar_direcao log direcao_alvo s')
      else Some (Inr s))"

declare ajustar_direcao.simps [code]

text \<open>
  \<open>_mover_para\<close>. The \<open>if\<close>/\<open>elif\<close> chain that picks the target orientation is
  \<open>direcao_para\<close>; its \<open>else: return\<close> is \<open>None\<close>.
\<close>

definition direcao_para :: "ambiente \<Rightarrow> posicao \<Rightarrow> int option" where
  "direcao_para s posicao_alvo =
     (let dx = fst posicao_alvo - fst (posicao_agente s);
          dy = snd posicao_alvo - snd (posicao_agente s)
      in if dx = 1 then Some 2
         else if dx = - 1 then Some 0
         else if dy = 1 then Some 1
         else if dy = - 1 then Some 3
         else None)"

definition mover_para :: "bool \<Rightarrow> ambiente \<Rightarrow> posicao \<Rightarrow> (erro + ambiente) option" where
  "mover_para log s posicao_alvo =
     (case direcao_para s posicao_alvo of
        None \<Rightarrow> Some (Inr s)
      | Some direcao_alvo \<Rightarrow>
          (case ajustar_direcao log direcao_alvo s of
             None \<Rightarrow> None
           | Some (Inl err) \<Rightarrow> Some (Inl err)
           | Some (Inr s1) \<Rightarrow>
               (case executar_comando_navegacao s1 ''A'' of
                  (Some err, s2) \<Rightarrow> Some (Inl err)
                | (None, s2) \<Rightarrow>
                    if log then
                      (case obter_leituras_sensores_proximidade s2 of
                         Inl err \<Rightarrow> Some (Inl err)
                       | Inr leituras \<Rightarrow> Some (Inr s2))
                    else Some (Inr s2))))"

definition get_posicao_a_frente :: "posicao \<Rightarrow> int \<Rightarrow> posicao option" where
  "get_posicao_a_frente posicao_atual direcao_robo =
     (if direcao_robo = 0 then Some (fst posicao_atual - 1, snd posicao_atual)
      else if direcao_robo = 1 then Some (fst posicao_atual, snd posicao_atual + 1)
      else if direcao_robo = 2 then Some (fst posicao_atual + 1, snd posicao_atual)
      else if direcao_robo = 3 then Some (fst posicao_atual, snd posicao_atual - 1)
      else None)"

text \<open>
  One pass through the body of the \<open>while\<close> loop of \<open>explorar_ate_encontrar_objeto\<close>.
  It ends in one of three ways: the loop goes on (\<open>Continua\<close>), the object is in front
  and the method returns \<open>True\<close> (\<open>Achou\<close>), or the stack became empty and the loop
  is left by \<open>break\<close> (\<open>PilhaVazia\<close>). When the front reading is the object the
  orientation is one of 0..3 (the sensors returned), so \<open>_get_posicao_a_frente\<close> gives a
  position; the model leaves the known map alone in the other, unreachable, case.
\<close>

datatype passo = Continua explorador | Achou explorador | PilhaVazia explorador

definition iteracao_exploracao :: "explorador \<Rightarrow> (erro + passo) option" where
  "iteracao_exploracao e =
     (case indice (pilha_navegacao e) (- 1) of
        Inl err \<Rightarrow> Some (Inl err)
      | Inr posicao_atual \<Rightarrow>
     (case atualizar_mapa_com_sensores e posicao_atual of
        Inl err \<Rightarrow> Some (Inl err)
      | Inr e1 \<Rightarrow>
     (case obter_leituras_sensores_proximidade (ambiente e1) of
        Inl err \<Rightarrow> Some (Inl err)
      | Inr leituras \<Rightarrow>
     (case indice leituras 1 of
        Inl err \<Rightarrow> Some (Inl err)
      | Inr frente \<Rightarrow>
          if frente = ''HUMANO'' then
            (case get_posicao_a_frente posicao_atual (direcao_agente (ambiente e1)) of
               Some q \<Rightarrow>
                 Some (Inr (Achou (e1\<lparr>posicao_objeto := Some q,
                                      mapa_conhecido := (mapa_conhecido e1)(q \<mapsto> CHR ''@'')\<rparr>)))
             | None \<Rightarrow> Some (Inr (Achou (e1\<lparr>posicao_objeto := None\<rparr>))))
          else
            (case encontrar_proxima_posicao_para_explorar e1 posicao_atual of
               Inl err \<Rightarrow> Some (Inl err)
             | Inr (Some proxima_posicao) \<Rightarrow>
                 (case mover_para (sistema_log e1) (ambiente e1) proxima_posicao of
                    None \<Rightarrow> None
                  | Some (Inl err) \<Rightarrow> Some (Inl err)
                  | Some (Inr s) \<Rightarrow>
                      Some (Inr (Continua
                        (e1\<lparr>ambiente := s,
                            posicoes_visitadas := insert (posicao_agente s) (posicoes_visitadas e1),
                            pilha_navegacao := pilha_navegacao e1 @ [posicao_agente s]\<rparr>))))
             | Inr None \<Rightarrow>
                 (let pilha = butlast (pilha_navegacao e1) in
                  if pilha \<noteq> [] then
                    (case mover_para (sistema_log e1) (ambiente e1) (last pilha) of
                       None \<Rightarrow> None
                     | Some (Inl err) \<Rightarrow> Some (Inl err)
                     | Some (Inr s) \<Rightarrow>
                         Some (Inr (Continua (e1\<lparr>ambiente := s, pilha_navegacao := pilha\<rparr>))))
                  else Some (Inr (PilhaVazia (e1\<lparr>pilha_navegacao := pilha\<rparr>)))))))))"

text \<open>The loop body leaves the iteration budget alone.\<close>

lemma registrar_leituras_preserva:
  "registrar_leituras p leituras idx direcoes e = Inr e' \<Longrightarrow>
   max_iteracoes e' = max_iteracoes e \<and> ambiente e' = ambiente e \<and>
   sistema_log e' = sistema_log e \<and> pilha_navegacao e' = pilha_navegacao e \<and>
   posicoes_visitadas e' = posicoes_visitadas e"
proof (induction direcoes arbitrary: idx e)
  case Nil
  then show ?case by simp
next
  case (Cons delta direcoes)
  from Cons.prems obtain celula_lida e1 where
    "registrar_leituras p leituras (idx + 1) direcoes e1 = Inr e'" and
    e1: "max_iteracoes e1 = max_iteracoes e \<and> ambiente e1 = ambiente e \<and>
         sistema_log e1 = sistema_log e \<and> pilha_navegacao e1 = pilha_navegacao e \<and>
         posicoes_visitadas e1 = posicoes_visitadas e"
    by (auto simp: Let_def split: sum.splits)
  from Cons.IH[OF this(1)] e1 show ?case by simp
qed

lemma atualizar_mapa_com_sensores_preserva:
  "atualizar_mapa_com_sensores e p = Inr e' \<Longrightarrow>
   max_iteracoes e' = max_iteracoes e \<and> ambiente e' = ambiente e \<and>
   sistema_log e' = sistema_log e \<and> pilha_navegacao e' = pilha_navegacao e \<and>
   posicoes_visitadas e' = posicoes_visitadas e"
  by (auto simp: atualizar_mapa_com_sensores_def split: sum.splits
      dest!: registrar_leituras_preserva)

lemma iteracao_exploracao_orcamento:
  assumes "iteracao_exploracao e = Some (Inr (Continua e'))"
  shows "max_iteracoes e' = max_iteracoes e"
proof -
  from assms obtain p e1 where p: "indice (pilha_navegacao e) (- 1) = Inr p"
    and a: "atualizar_mapa_com_sensores e p = Inr e1"
    by (auto simp: iteracao_exploracao_def split: sum.splits)
  from atualizar_mapa_com_sensores_preserva[OF a] have m: "max_iteracoes e1 = max_iteracoes e"
    by simp
  from assms p a have "max_iteracoes e' = max_iteracoes e1"
    by (auto simp: iteracao_exploracao_def Let_def
        split: sum.splits option.splits if_splits)
  with m show ?thesis by simp
qed

text \<open>
  The \<open>while iteracao < self.max_iteracoes\<close> loop. The result is the returned boolean,
  the value of the counter \<open>iteracao\<close> when the loop was left, and the explorer.
\<close>

function explorar_laco :: "explorador \<Rightarrow> int \<Rightarrow> (erro + bool \<times> int \<times> explorador) option" where
  "explorar_laco e iteracao =
     (if iteracao < max_iteracoes e then
        (case iteracao_exploracao e of
           None \<Rightarrow> None
         | Some (Inl err) \<Rightarrow> Some (Inl err)
         | Some (Inr (Achou e')) \<Rightarrow> Some (Inr (True, iteracao + 1, e'))
         | Some (Inr (PilhaVazia e')) \<Rightarrow> Some (Inr (False, iteracao + 1, e'))
         | Some (Inr (Continua e')) \<Rightarrow> explorar_laco e' (iteracao + 1))
      else Some (Inr (False, iteracao, e)))"
  by pat_completeness auto
termination
proof (relation "measure (\<lambda>(e, iteracao). nat (max_iteracoes e - iteracao))")
  show "wf (measure (\<lambda>(e, iteracao). nat (max_iteracoes e - iteracao)))" by simp
next
  fix e :: explorador and iteracao :: int and x2 x2a x1
  assume "iteracao < max_iteracoes e" and "iteracao_exploracao e = Some x2"
    and "x2 = Inr x2a" and "x2a = Continua x1"
  then have "max_iteracoes x1 = max_iteracoes e"
    using iteracao_exploracao_orcamento[of e x1] by simp
  with \<open>iteracao < max_iteracoes e\<close>
  show "((x1, iteracao + 1), e, iteracao) \<in> measure (\<lambda>(e, iteracao). nat (max_iteracoes e - iteracao))"
    by simp
qed

definition explorar_ate_encontrar_objeto :: "explorador \<Rightarrow> (erro + bool \<times> int \<times> explorador) option" where
  "explorar_ate_encontrar_objeto e =
     (let posicao_inicial = posicao_agente (ambiente e) in
      explorar_laco
        (e\<lparr>posicoes_visitadas := insert posicao_inicial (posicoes_visitadas e),
           mapa_conhecido := (mapa_conhecido e)(posicao_inicial \<mapsto> CHR ''E''),
           pilha_navegacao := pilha_navegacao e @ [posicao_inicial]\<rparr>) 0)"

text \<open>\<open>__init__\<close> of the explorer: empty map, empty stack, nothing visited.\<close>

definition explorador_inicial :: "ambiente \<Rightarrow> bool \<Rightarrow> int \<Rightarrow> explorador" where
  "explorador_inicial s log maximo =
     \<lparr> ambiente = s, sistema_log = log, mapa_conhecido = Map.empty, posicoes_visitadas = {},
       pilha_navegacao = [], posicao_objeto = None, max_iteracoes = maximo \<rparr>"

section \<open>Properties of the exploration\<close>

subsection \<open>Every loop of the exploration ends\<close>








declare explorar_laco.simps [simp del]








subsection \<open>Claims about the exploration\<close>





text \<open>
  C3, on the straight corridor. The explorer is in the state in which the first
  iteration finds it: at the entrance (0,1), facing south, with its own cell in the map.
  \<open>_atualizar_mapa_com_sensores\<close> reads the sensors once and leaves the environment as
  it was (no rotation); it records the cell in front, (1,1), and the two cells diagonally
  in front, (1,0) and (1,2). The other three cardinal neighbours of (0,1) get no entry.
\<close>

definition corredor_reto :: ambiente where
  "corredor_reto =
     \<lparr> nome_mapa = ''mapa_teste'', labirinto = [''*E*'', ''* *'', ''*@*''],
       posicao_agente = (0, 1), direcao_agente = 2, objeto_coletado = False \<rparr>"

definition explorador_na_entrada :: "ambiente \<Rightarrow> explorador" where
  "explorador_na_entrada s =
     (explorador_inicial s True 500)
       \<lparr>posicoes_visitadas := {posicao_agente s},
        mapa_conhecido := [posicao_agente s \<mapsto> CHR ''E''],
        pilha_navegacao := [posicao_agente s]\<rparr>"

theorem atualizar_mapa_sem_rotacao:
  "construir [''*E*'', ''* *'', ''*@*''] = Inr corredor_reto \<and>
   (case atualizar_mapa_com_sensores (explorador_na_entrada corredor_reto) (0, 1) of
      Inl err \<Rightarrow> False
    | Inr e \<Rightarrow>
        ambiente e = corredor_reto \<and>
        mapa_conhecido e (1, 1) = Some (CHR ''.'') \<and>
        mapa_conhecido e (1, 0) = Some (CHR ''X'') \<and>
        mapa_conhecido e (1, 2) = Some (CHR ''X'') \<and>
        mapa_conhecido e (0, 0) = None \<and>
        mapa_conhecido e (0, 2) = None \<and>
        mapa_conhecido e (- 1, 1) = None)"
  by code_simp

text \<open>
  What follows from the missing entries: on the maze below the explorer walks from the
  entrance (1,0) to (1,1) and down to (2,1), then picks the cell to its right, (2,0),
  which it never sensed and which is a wall, and the run ends with the collision error.
\<close>

lemma exploracao_colide_com_parede:
  "(case construir [''***'', ''E *'', ''*@*''] of
      Inl err \<Rightarrow> False
    | Inr s \<Rightarrow>
        (case explorar_ate_encontrar_objeto (explorador_inicial s True 500) of
           Some (Inl err) \<Rightarrow> err = ColisaoComParede (2, 1) (2, 0)
         | _ \<Rightarrow> False))"
  by code_simp

section \<open>Path search: \<open>astar_labirinto.py\<close>\<close>

subsection \<open>Search nodes\<close>

text \<open>
  A \<open>NoNavegacao\<close> object. The parent link is held by value: a node becomes a parent
  only when it has been taken from the queue, and from then on nothing writes to it (the
  relaxation only writes to nodes still in \<open>nos_abertos\<close>, from which a node is
  deleted when it is taken), so the value and the reference cannot come apart.
\<close>

datatype no_navegacao =
  NoNavegacao (posicao: posicao) (custo_g: int) (custo_h: int) (custo_f: int)
    (no_pai: "no_navegacao option")

definition novo_no :: "posicao \<Rightarrow> int \<Rightarrow> int \<Rightarrow> no_navegacao option \<Rightarrow> no_navegacao" where
  "novo_no p g h pai = NoNavegacao p g h (g + h) pai"

text \<open>\<open>__lt__\<close>: the only comparison the priority queue uses.\<close>

definition menor :: "no_navegacao \<Rightarrow> no_navegacao \<Rightarrow> bool" where
  "menor a b = (custo_f a < custo_f b)"

subsection \<open>The priority queue: Python's \<open>heapq\<close> on a list\<close>

text \<open>
  \<open>heapq\<close> keeps a binary heap in a list: the children of index \<open>k\<close> are at
  \<open>2k + 1\<close> and \<open>2k + 2\<close>. The functions below follow the library's \<open>_siftdown\<close>,
  \<open>_siftup\<close>, \<open>heappush\<close>, \<open>heappop\<close> and \<open>heapify\<close> statement by statement.
\<close>

function siftdown_laco :: "no_navegacao list \<Rightarrow> nat \<Rightarrow> nat \<Rightarrow> no_navegacao \<Rightarrow> no_navegacao list" where
  "siftdown_laco heap startpos pos newitem =
     (if pos > startpos then
        (let parentpos = (pos - 1) div 2; parent = heap ! parentpos in
         if menor newitem parent
         then siftdown_laco (heap[pos := parent]) startpos parentpos newitem
         else heap[pos := newitem])
      else heap[pos := newitem])"
  by pat_completeness auto
termination
  by (relation "measure (\<lambda>(heap, startpos, pos, newitem). pos)") auto

definition siftdown :: "no_navegacao list \<Rightarrow> nat \<Rightarrow> nat \<Rightarrow> no_navegacao list" where
  "siftdown heap startpos pos = siftdown_laco heap startpos pos (heap ! pos)"

text \<open>
  The first loop of \<open>_siftup\<close> moves the smaller child up until a leaf is reached and
  returns the list with the index of that leaf.
\<close>

function siftup_laco :: "no_navegacao list \<Rightarrow> nat \<Rightarrow> no_navegacao list \<times> nat" where
  "siftup_laco heap pos =
     (let endpos = length heap; childpos = 2 * pos + 1 in
      if childpos < endpos then
        (let rightpos = childpos + 1;
             menorpos = (if rightpos < endpos \<and> \<not> menor (heap ! childpos) (heap ! rightpos)
                         then rightpos else childpos)
         in siftup_laco (heap[pos := heap ! menorpos]) menorpos)
      else (heap, pos))"
  by pat_completeness auto
termination
  by (relation "measure (\<lambda>(heap, pos). length heap - pos)") (auto simp: Let_def)

definition siftup :: "no_navegacao list \<Rightarrow> nat \<Rightarrow> no_navegacao list" where
  "siftup heap pos =
     (let newitem = heap ! pos in
      case siftup_laco heap pos of
        (heap', folha) \<Rightarrow> siftdown (heap'[folha := newitem]) pos folha)"

definition heappush :: "no_navegacao list \<Rightarrow> no_navegacao \<Rightarrow> no_navegacao list" where
  "heappush heap item = siftdown (heap @ [item]) 0 (length heap)"

definition heappop :: "no_navegacao list \<Rightarrow> erro + no_navegacao \<times> no_navegacao list" where
  "heappop heap =
     (if heap = [] then Inl IndexError
      else
        (let lastelt = last heap; resto = butlast heap in
         if resto \<noteq> [] then Inr (resto ! 0, siftup (resto[0 := lastelt]) 0)
         else Inr (lastelt, resto)))"

definition heapify :: "no_navegacao list \<Rightarrow> no_navegacao list" where
  "heapify x = foldl siftup x (rev [0..<length x div 2])"

declare siftdown_laco.simps [simp del]
declare siftup_laco.simps [simp del]

subsection \<open>The search\<close>

type_synonym mapa = "string list"

definition calcular_distancia_manhattan :: "posicao \<Rightarrow> posicao \<Rightarrow> int" where
  "calcular_distancia_manhattan posicao_atual posicao_objetivo =
     \<bar>fst posicao_atual - fst posicao_objetivo\<bar> + \<bar>snd posicao_atual - snd posicao_objetivo\<bar>"

text \<open>
  \<open>obter_vizinhos_validos\<close>: the four directions in the order north, south, east, west.
  As in the simulator, the column is tested against the length of the first row and the
  cell is then read from its own row.
\<close>

definition direcoes :: "(int \<times> int) list" where
  "direcoes = [(-1, 0), (1, 0), (0, 1), (0, -1)]"

fun vizinhos_laco :: "mapa \<Rightarrow> posicao \<Rightarrow> (int \<times> int) list \<Rightarrow> posicao list \<Rightarrow> erro + posicao list" where
  "vizinhos_laco mapa p [] vizinhos = Inr vizinhos"
| "vizinhos_laco mapa p (delta # ds) vizinhos =
     (let nova_linha = fst p + fst delta; nova_coluna = snd p + snd delta in
      if 0 \<le> nova_linha \<and> nova_linha < int (length mapa) \<and>
         0 \<le> nova_coluna \<and> nova_coluna < int (length (mapa ! 0))
      then
        (case indice (mapa ! nat nova_linha) nova_coluna of
           Inl e \<Rightarrow> Inl e
         | Inr c \<Rightarrow>
             if c \<noteq> CHR ''*''
             then vizinhos_laco mapa p ds (vizinhos @ [(nova_linha, nova_coluna)])
             else vizinhos_laco mapa p ds vizinhos)
      else vizinhos_laco mapa p ds vizinhos)"

definition obter_vizinhos_validos :: "posicao \<Rightarrow> mapa \<Rightarrow> erro + posicao list" where
  "obter_vizinhos_validos p mapa = vizinhos_laco mapa p direcoes []"

text \<open>\<open>reconstruir_caminho_otimo\<close>: follow the parents, then reverse.\<close>

fun cadeia :: "no_navegacao \<Rightarrow> posicao list" where
  "cadeia (NoNavegacao p g h f None) = [p]"
| "cadeia (NoNavegacao p g h f (Some pai)) = p # cadeia pai"

definition reconstruir_caminho_otimo :: "no_navegacao \<Rightarrow> posicao list" where
  "reconstruir_caminho_otimo no_objetivo = rev (cadeia no_objetivo)"

text \<open>
  The three structures of the main loop. The queue and the dictionary \<open>nos_abertos\<close>
  hold the same node objects; at most one node exists per position (a node is created
  only for a position that is neither visited nor in \<open>nos_abertos\<close>), so the write of
  the relaxation to the node of a position is a write to the entry of the dictionary
  and to the element of the queue at that position.
\<close>

record busca =
  fila_prioridade :: "no_navegacao list"
  nos_visitados :: "posicao set"
  nos_abertos :: "posicao \<rightharpoonup> no_navegacao"

text \<open>The body of the loop \<open>for posicao_vizinho in vizinhos\<close>, then the loop.\<close>

definition processar_vizinho :: "posicao \<Rightarrow> no_navegacao \<Rightarrow> busca \<Rightarrow> posicao \<Rightarrow> busca" where
  "processar_vizinho objetivo no_atual st posicao_vizinho =
     (if posicao_vizinho \<in> nos_visitados st then st
      else
        (let custo_g_vizinho = custo_g no_atual + 1;
             custo_h_vizinho = calcular_distancia_manhattan posicao_vizinho objetivo
         in case nos_abertos st posicao_vizinho of
              Some existente \<Rightarrow>
                if custo_g_vizinho < custo_g existente then
                  (let atualizado =
                         NoNavegacao (posicao existente) custo_g_vizinho (custo_h existente)
                           (custo_g_vizinho + custo_h_vizinho) (Some no_atual)
                   in st\<lparr>nos_abertos := (nos_abertos st)(posicao_vizinho \<mapsto> atualizado),
                         fila_prioridade :=
                           heapify (map (\<lambda>n. if posicao n = posicao_vizinho then atualizado else n)
                                      (fila_prioridade st))\<rparr>)
                else st
            | None \<Rightarrow>
                (let no_vizinho =
                       novo_no posicao_vizinho custo_g_vizinho custo_h_vizinho (Some no_atual)
                 in st\<lparr>fila_prioridade := heappush (fila_prioridade st) no_vizinho,
                       nos_abertos := (nos_abertos st)(posicao_vizinho \<mapsto> no_vizinho)\<rparr>)))"

fun explorar_vizinhos :: "posicao \<Rightarrow> no_navegacao \<Rightarrow> posicao list \<Rightarrow> busca \<Rightarrow> busca" where
  "explorar_vizinhos objetivo no_atual [] st = st"
| "explorar_vizinhos objetivo no_atual (posicao_vizinho # vizinhos) st =
     explorar_vizinhos objetivo no_atual vizinhos
       (processar_vizinho objetivo no_atual st posicao_vizinho)"

lemma processar_visitado:
  "q \<in> nos_visitados st \<Longrightarrow> processar_vizinho objetivo no_atual st q = st"
  by (simp add: processar_vizinho_def)

lemma processar_pior:
  "q \<notin> nos_visitados st \<Longrightarrow> nos_abertos st q = Some existente \<Longrightarrow>
   \<not> custo_g no_atual + 1 < custo_g existente \<Longrightarrow>
   processar_vizinho objetivo no_atual st q = st"
  by (simp add: processar_vizinho_def)

lemma processar_melhor:
  "q \<notin> nos_visitados st \<Longrightarrow> nos_abertos st q = Some existente \<Longrightarrow>
   custo_g no_atual + 1 < custo_g existente \<Longrightarrow>
   atualizado = NoNavegacao (posicao existente) (custo_g no_atual + 1) (custo_h existente)
       (custo_g no_atual + 1 + calcular_distancia_manhattan q objetivo) (Some no_atual) \<Longrightarrow>
   processar_vizinho objetivo no_atual st q =
     st\<lparr>nos_abertos := (nos_abertos st)(q \<mapsto> atualizado),
        fila_prioridade :=
          heapify (map (\<lambda>n. if posicao n = q then atualizado else n) (fila_prioridade st))\<rparr>"
  by (clarsimp simp: processar_vizinho_def Let_def)

lemma processar_novo:
  "q \<notin> nos_visitados st \<Longrightarrow> nos_abertos st q = None \<Longrightarrow>
   no_vizinho = novo_no q (custo_g no_atual + 1) (calcular_distancia_manhattan q objetivo)
                  (Some no_atual) \<Longrightarrow>
   processar_vizinho objetivo no_atual st q =
     st\<lparr>fila_prioridade := heappush (fila_prioridade st) no_vizinho,
        nos_abertos := (nos_abertos st)(q \<mapsto> no_vizinho)\<rparr>"
  by (simp add: processar_vizinho_def Let_def)

text \<open>The queue operations change the length of the list as expected.\<close>

lemma siftdown_laco_length: "length (siftdown_laco heap startpos pos newitem) = length heap"
proof (induction heap startpos pos newitem rule: siftdown_laco.induct)
  case (1 heap startpos pos newitem)
  show ?case
  proof (cases "startpos < pos \<and> menor newitem (heap ! ((pos - 1) div 2))")
    case True
    then have "siftdown_laco heap startpos pos newitem =
        siftdown_laco (heap[pos := heap ! ((pos - 1) div 2)]) startpos ((pos - 1) div 2) newitem"
      by (subst siftdown_laco.simps) (simp add: Let_def)
    with "1.IH"[OF _ refl refl] True show ?thesis by simp
  next
    case False
    then have "siftdown_laco heap startpos pos newitem = heap[pos := newitem]"
      by (subst siftdown_laco.simps) (auto simp: Let_def)
    then show ?thesis by simp
  qed
qed

lemma siftup_laco_length: "length (fst (siftup_laco heap pos)) = length heap"
proof (induction heap pos rule: siftup_laco.induct)
  case (1 heap pos)
  show ?case
  proof (cases "2 * pos + 1 < length heap")
    case False
    then have "siftup_laco heap pos = (heap, pos)"
      by (subst siftup_laco.simps) (simp add: Let_def)
    then show ?thesis by simp
  next
    case True
    define m where "m = (if 2 * pos + 1 + 1 < length heap \<and>
                             \<not> menor (heap ! (2 * pos + 1)) (heap ! (2 * pos + 1 + 1))
                         then 2 * pos + 1 + 1 else 2 * pos + 1)"
    from True have "siftup_laco heap pos = siftup_laco (heap[pos := heap ! m]) m"
      by (subst siftup_laco.simps) (simp add: Let_def m_def)
    with "1.IH"[OF refl refl True refl m_def] show ?thesis by simp
  qed
qed

lemma siftup_length [simp]: "length (siftup heap pos) = length heap"
proof -
  obtain h' folha where r: "siftup_laco heap pos = (h', folha)" by (cases "siftup_laco heap pos")
  with siftup_laco_length[of heap pos] have "length h' = length heap" by simp
  with r show ?thesis by (simp add: siftup_def siftdown_def Let_def siftdown_laco_length)
qed

lemma heappush_length [simp]: "length (heappush heap item) = Suc (length heap)"
  by (simp add: heappush_def siftdown_def siftdown_laco_length)

lemma foldl_siftup_length: "length (foldl siftup heap ks) = length heap"
  by (induction ks arbitrary: heap) simp_all

lemma heapify_length [simp]: "length (heapify x) = length x"
  by (simp add: heapify_def foldl_siftup_length)

lemma heappop_length:
  assumes "heappop heap = Inr (item, resto)"
  shows "Suc (length resto) = length heap"
proof -
  from assms have n: "heap \<noteq> []" by (auto simp: heappop_def split: if_splits)
  then have s: "Suc (length (butlast heap)) = length heap" by simp
  show ?thesis
  proof (cases "butlast heap = []")
    case True
    with assms n have "resto = butlast heap" by (simp add: heappop_def Let_def)
    with s show ?thesis by metis
  next
    case False
    with assms n have "resto = siftup ((butlast heap)[0 := last heap]) 0"
      by (simp add: heappop_def Let_def)
    then have "length resto = length (butlast heap)" by (simp only: siftup_length length_list_update)
    with s show ?thesis by metis
  qed
qed

text \<open>
  The main loop ends because every position of the rectangle is queued at most once:
  the measure counts twice the positions that are neither visited nor open, plus the
  length of the queue.
\<close>

definition celulas :: "mapa \<Rightarrow> posicao set" where
  "celulas mapa = {0..<int (length mapa)} \<times> {0..<int (length (mapa ! 0))}"

definition medida :: "mapa \<Rightarrow> busca \<Rightarrow> nat" where
  "medida mapa st =
     2 * card (celulas mapa - (nos_visitados st \<union> dom (nos_abertos st))) +
     length (fila_prioridade st)"

lemma finite_celulas [simp]: "finite (celulas mapa)"
  by (simp add: celulas_def)

lemma vizinhos_laco_celulas:
  "vizinhos_laco mapa p ds acc = Inr vs \<Longrightarrow> set acc \<subseteq> celulas mapa \<Longrightarrow> set vs \<subseteq> celulas mapa"
proof (induction ds arbitrary: acc)
  case Nil
  then show ?case by simp
next
  case (Cons delta ds)
  let ?q = "(fst p + fst delta, snd p + snd delta)"
  show ?case
  proof (cases "0 \<le> fst ?q \<and> fst ?q < int (length mapa) \<and>
                0 \<le> snd ?q \<and> snd ?q < int (length (mapa ! 0))")
    case False
    with Cons.prems have "vizinhos_laco mapa p ds acc = Inr vs" by (auto simp: Let_def)
    from Cons.IH[OF this Cons.prems(2)] show ?thesis .
  next
    case True
    then have q: "?q \<in> celulas mapa" by (simp add: celulas_def)
    from True Cons.prems(1) have "vizinhos_laco mapa p ds acc = Inr vs \<or>
        vizinhos_laco mapa p ds (acc @ [?q]) = Inr vs"
      by (auto simp: Let_def split: sum.splits if_splits)
    with Cons.IH[of acc] Cons.IH[of "acc @ [?q]"] Cons.prems(2) q show ?thesis by auto
  qed
qed

lemma obter_vizinhos_validos_celulas:
  "obter_vizinhos_validos p mapa = Inr vs \<Longrightarrow> set vs \<subseteq> celulas mapa"
  using vizinhos_laco_celulas[of mapa p direcoes "[]" vs] by (simp add: obter_vizinhos_validos_def)

lemma processar_vizinho_medida:
  assumes "q \<in> celulas mapa"
  shows "medida mapa (processar_vizinho objetivo no_atual st q) \<le> medida mapa st"
proof (cases "q \<in> nos_visitados st")
  case True
  then show ?thesis by (simp add: processar_visitado)
next
  case nv: False
  show ?thesis
  proof (cases "nos_abertos st q")
    case (Some existente)
    then have d: "insert q (dom (nos_abertos st)) = dom (nos_abertos st)" by auto
    show ?thesis
    proof (cases "custo_g no_atual + 1 < custo_g existente")
      case True
      from processar_melhor[OF nv Some True refl] d show ?thesis by (simp add: medida_def)
    next
      case False
      from processar_pior[OF nv Some False] show ?thesis by simp
    qed
  next
    case None
    let ?A = "celulas mapa - (nos_visitados st \<union> dom (nos_abertos st))"
    from assms nv None have qa: "q \<in> ?A" by auto
    have e: "celulas mapa - (nos_visitados st \<union> insert q (dom (nos_abertos st))) = ?A - {q}"
      by auto
    have f: "finite ?A" by simp
    from qa f have "0 < card ?A" by (auto simp: card_gt_0_iff)
    with processar_novo[OF nv None refl, of objetivo no_atual] e qa f show ?thesis
      by (simp add: medida_def)
  qed
qed

lemma explorar_vizinhos_medida:
  "set vs \<subseteq> celulas mapa \<Longrightarrow> medida mapa (explorar_vizinhos objetivo no_atual vs st) \<le> medida mapa st"
proof (induction vs arbitrary: st)
  case Nil
  then show ?case by simp
next
  case (Cons q vs)
  from Cons.prems have q: "q \<in> celulas mapa" and vs: "set vs \<subseteq> celulas mapa" by simp_all
  from Cons.IH[OF vs, of "processar_vizinho objetivo no_atual st q"]
    processar_vizinho_medida[OF q, of objetivo no_atual st]
  show ?case by simp
qed

function busca_laco :: "mapa \<Rightarrow> posicao \<Rightarrow> busca \<Rightarrow> erro + posicao list option" where
  "busca_laco mapa objetivo st =
     (if fila_prioridade st \<noteq> [] then
        (case heappop (fila_prioridade st) of
           Inl e \<Rightarrow> Inl e
         | Inr (no_atual, resto) \<Rightarrow>
             if posicao no_atual = objetivo then Inr (Some (reconstruir_caminho_otimo no_atual))
             else
               (case obter_vizinhos_validos (posicao no_atual) mapa of
                  Inl e \<Rightarrow> Inl e
                | Inr vizinhos \<Rightarrow>
                    busca_laco mapa objetivo
                      (explorar_vizinhos objetivo no_atual vizinhos
                         (st\<lparr>fila_prioridade := resto,
                             nos_visitados := insert (posicao no_atual) (nos_visitados st),
                             nos_abertos := (nos_abertos st)(posicao no_atual := None)\<rparr>))))
      else Inr None)"
  by pat_completeness auto
termination
proof (relation "measure (\<lambda>(mapa, objetivo, st). medida mapa st)")
  show "wf (measure (\<lambda>(mapa, objetivo, st). medida mapa st))" by simp
next
  fix mapa :: mapa and objetivo :: posicao and st :: busca and x2 no_atual resto vizinhos
  assume pop: "heappop (fila_prioridade st) = Inr x2" "(no_atual, resto) = x2"
    and viz: "obter_vizinhos_validos (posicao no_atual) mapa = Inr vizinhos"
  let ?st1 = "st\<lparr>fila_prioridade := resto,
                  nos_visitados := insert (posicao no_atual) (nos_visitados st),
                  nos_abertos := (nos_abertos st)(posicao no_atual := None)\<rparr>"
  from pop have l: "Suc (length resto) = length (fila_prioridade st)"
    using heappop_length[of "fila_prioridade st" no_atual resto] by simp
  have "celulas mapa - (nos_visitados ?st1 \<union> dom (nos_abertos ?st1))
        \<subseteq> celulas mapa - (nos_visitados st \<union> dom (nos_abertos st))" by auto
  then have "card (celulas mapa - (nos_visitados ?st1 \<union> dom (nos_abertos ?st1)))
        \<le> card (celulas mapa - (nos_visitados st \<union> dom (nos_abertos st)))"
    by (intro card_mono) simp_all
  with l have "medida mapa ?st1 < medida mapa st" by (simp add: medida_def)
  with explorar_vizinhos_medida[OF obter_vizinhos_validos_celulas[OF viz], of objetivo no_atual ?st1]
  show "((mapa, objetivo, explorar_vizinhos objetivo no_atual vizinhos ?st1), mapa, objetivo, st)
        \<in> measure (\<lambda>(mapa, objetivo, st). medida mapa st)"
    by simp
qed

declare busca_laco.simps [simp del]

text \<open>
  \<open>algoritmo_busca_astar\<close>: the five input checks in the order of the source, the
  trivial path, and the main loop started with the node of the initial position.
\<close>

definition algoritmo_busca_astar :: "mapa \<Rightarrow> posicao \<Rightarrow> posicao \<Rightarrow> erro + posicao list option" where
  "algoritmo_busca_astar mapa posicao_inicial posicao_objetivo =
     (if mapa = [] \<or> mapa ! 0 = [] then Inl MapaVazio
      else if fst posicao_inicial < 0 \<or> fst posicao_inicial \<ge> int (length mapa) \<or>
              snd posicao_inicial < 0 \<or> snd posicao_inicial \<ge> int (length (mapa ! 0))
      then Inl (PosicaoInicialInvalida posicao_inicial)
      else if fst posicao_objetivo < 0 \<or> fst posicao_objetivo \<ge> int (length mapa) \<or>
              snd posicao_objetivo < 0 \<or> snd posicao_objetivo \<ge> int (length (mapa ! 0))
      then Inl (PosicaoObjetivoInvalida posicao_objetivo)
      else
        (case indice (mapa ! nat (fst posicao_inicial)) (snd posicao_inicial) of
           Inl e \<Rightarrow> Inl e
         | Inr c_inicial \<Rightarrow>
             if c_inicial = CHR ''*'' then Inl (PosicaoInicialObstaculo posicao_inicial)
             else
               (case indice (mapa ! nat (fst posicao_objetivo)) (snd posicao_objetivo) of
                  Inl e \<Rightarrow> Inl e
                | Inr c_objetivo \<Rightarrow>
                    if c_objetivo = CHR ''*'' then Inl (PosicaoObjetivoObstaculo posicao_objetivo)
                    else if posicao_inicial = posicao_objetivo then Inr (Some [posicao_inicial])
                    else
                      (let no_inicial =
                             novo_no posicao_inicial 0
                               (calcular_distancia_manhattan posicao_inicial posicao_objetivo) None
                       in busca_laco mapa posicao_objetivo
                            \<lparr> fila_prioridade = heappush [] no_inicial, nos_visitados = {},
                              nos_abertos = [posicao_inicial \<mapsto> no_inicial] \<rparr>))))"

section \<open>Correctness of the priority queue\<close>

text \<open>
  \<open>ordenado_desde h lo\<close>: every element whose parent has index at least \<open>lo\<close> is not
  smaller than its parent. With \<open>lo = 0\<close> this is the heap invariant.
\<close>

definition ordenado_desde :: "no_navegacao list \<Rightarrow> nat \<Rightarrow> bool" where
  "ordenado_desde h lo =
     (\<forall>i. 0 < i \<and> i < length h \<and> lo \<le> (i - 1) div 2 \<longrightarrow>
          custo_f (h ! ((i - 1) div 2)) \<le> custo_f (h ! i))"

text \<open>\<open>descendente s p\<close>: index \<open>p\<close> lies in the subtree rooted at index \<open>s\<close>.\<close>

function descendente :: "nat \<Rightarrow> nat \<Rightarrow> bool" where
  "descendente s p = (if p \<le> s then p = s else descendente s ((p - 1) div 2))"
  by pat_completeness auto
termination
  by (relation "measure (\<lambda>(s, p). p)") auto

declare descendente.simps [simp del]

lemma descendente_refl: "descendente s s"
  by (subst descendente.simps) simp

lemma descendente_ge: "descendente s p \<Longrightarrow> s \<le> p"
proof (induction s p rule: descendente.induct)
  case (1 s p)
  show ?case
  proof (cases "p \<le> s")
    case True
    with "1.prems" show ?thesis by (subst (asm) descendente.simps) simp
  next
    case False
    then show ?thesis by simp
  qed
qed

lemma descendente_pai: "descendente s p \<Longrightarrow> s < p \<Longrightarrow> descendente s ((p - 1) div 2)"
  by (subst (asm) descendente.simps) simp

lemma descendente_pai_ge: "descendente s p \<Longrightarrow> s < p \<Longrightarrow> s \<le> (p - 1) div 2"
  using descendente_pai descendente_ge by blast

lemma descendente_filho:
  assumes "descendente s p" and "0 < c" and "(c - 1) div 2 = p"
  shows "descendente s c"
proof -
  from assms(2,3) have "p < c" by arith
  with descendente_ge[OF assms(1)] have "\<not> c \<le> s" by simp
  with assms show ?thesis by (subst descendente.simps) simp
qed

lemma descendente_zero: "descendente 0 p"
proof (induction p rule: less_induct)
  case (less p)
  show ?case
  proof (cases "p = 0")
    case True
    then show ?thesis by (simp add: descendente_refl)
  next
    case False
    then have "(p - 1) div 2 < p" by arith
    from less.IH[OF this] False show ?thesis by (subst descendente.simps) simp
  qed
qed

text \<open>
  \<open>quase_heap v s pos\<close>: within the part of \<open>v\<close> ruled by \<open>s\<close> the order can only
  fail between \<open>pos\<close> and its parent, and the parent of \<open>pos\<close> is not larger than the
  children of \<open>pos\<close>. This is what \<open>_siftdown\<close> keeps while it moves an item up.
\<close>

definition quase_heap :: "no_navegacao list \<Rightarrow> nat \<Rightarrow> nat \<Rightarrow> bool" where
  "quase_heap v s pos =
     ((\<forall>i. 0 < i \<and> i < length v \<and> s \<le> (i - 1) div 2 \<and> i \<noteq> pos \<longrightarrow>
           custo_f (v ! ((i - 1) div 2)) \<le> custo_f (v ! i)) \<and>
      (s < pos \<longrightarrow>
         (\<forall>c. 0 < c \<and> c < length v \<and> (c - 1) div 2 = pos \<longrightarrow>
              custo_f (v ! ((pos - 1) div 2)) \<le> custo_f (v ! c))))"

lemma quase_heap_fim:
  assumes "quase_heap v s pos" and "descendente s pos"
    and "s < pos \<longrightarrow> custo_f (v ! ((pos - 1) div 2)) \<le> custo_f (v ! pos)"
  shows "ordenado_desde v s"
  unfolding ordenado_desde_def
proof (intro allI impI)
  fix i assume i: "0 < i \<and> i < length v \<and> s \<le> (i - 1) div 2"
  show "custo_f (v ! ((i - 1) div 2)) \<le> custo_f (v ! i)"
  proof (cases "i = pos")
    case False
    with assms(1) i show ?thesis by (simp add: quase_heap_def)
  next
    case True
    with i have "(pos - 1) div 2 < pos" by arith
    with i True have "s < pos" by simp
    with assms(3) True show ?thesis by simp
  qed
qed

lemma quase_heap_passo:
  assumes q: "quase_heap v s pos" and d: "descendente s pos" and sp: "s < pos"
    and len: "pos < length v"
    and lt: "custo_f (v ! pos) < custo_f (v ! ((pos - 1) div 2))"
  shows "quase_heap (v[pos := v ! ((pos - 1) div 2), (pos - 1) div 2 := v ! pos]) s ((pos - 1) div 2)"
proof -
  let ?pp = "(pos - 1) div 2"
  let ?v' = "v[pos := v ! ?pp, ?pp := v ! pos]"
  from sp have pp: "?pp < pos" by arith
  from pp len have lpp: "?pp < length v" by simp
  have n_pos: "?v' ! pos = v ! ?pp" using pp len by simp
  have n_pp: "?v' ! ?pp = v ! pos" using lpp by simp
  have n_o: "?v' ! j = v ! j" if "j \<noteq> pos" "j \<noteq> ?pp" for j using that by simp
  from q have q1: "\<And>i. 0 < i \<Longrightarrow> i < length v \<Longrightarrow> s \<le> (i - 1) div 2 \<Longrightarrow> i \<noteq> pos \<Longrightarrow>
           custo_f (v ! ((i - 1) div 2)) \<le> custo_f (v ! i)"
    by (simp add: quase_heap_def)
  from q sp have q2: "\<And>c. 0 < c \<Longrightarrow> c < length v \<Longrightarrow> (c - 1) div 2 = pos \<Longrightarrow>
              custo_f (v ! ?pp) \<le> custo_f (v ! c)"
    by (simp add: quase_heap_def)
  have a: "custo_f (?v' ! ((i - 1) div 2)) \<le> custo_f (?v' ! i)"
    if i: "0 < i" "i < length v" "s \<le> (i - 1) div 2" "i \<noteq> ?pp" for i
  proof -
    consider (p) "i = pos" | (c) "i \<noteq> pos" "(i - 1) div 2 = pos"
      | (sib) "i \<noteq> pos" "(i - 1) div 2 = ?pp" | (o) "i \<noteq> pos" "(i - 1) div 2 \<noteq> pos" "(i - 1) div 2 \<noteq> ?pp"
      by blast
    then show ?thesis
    proof cases
      case p
      with n_pos n_pp lt show ?thesis by simp
    next
      case c
      from c i have "i \<noteq> ?pp" by simp
      with c n_o[of i] n_pos q2[of i] i show ?thesis by simp
    next
      case sib
      from q1[of i] i sib have "custo_f (v ! ?pp) \<le> custo_f (v ! i)" by simp
      with sib i n_o[of i] n_pp lt show ?thesis by simp
    next
      case o
      with i n_o[of i] n_o[of "(i - 1) div 2"] q1[of i] show ?thesis by simp
    qed
  qed
  have b: "custo_f (?v' ! ((?pp - 1) div 2)) \<le> custo_f (?v' ! c)"
    if s: "s < ?pp" and c: "0 < c" "c < length v" "(c - 1) div 2 = ?pp" for c
  proof -
    from s have g: "(?pp - 1) div 2 < ?pp" by arith
    from descendente_pai[OF d sp] have dp: "descendente s ?pp" .
    from descendente_pai_ge[OF dp s] have ge: "s \<le> (?pp - 1) div 2" .
    from s have "0 < ?pp" by simp
    from q1[OF this lpp ge] pp have r: "custo_f (v ! ((?pp - 1) div 2)) \<le> custo_f (v ! ?pp)"
      by simp
    have e: "?v' ! ((?pp - 1) div 2) = v ! ((?pp - 1) div 2)" using g pp by (intro n_o) simp_all
    show ?thesis
    proof (cases "c = pos")
      case True
      with e r n_pos show ?thesis by simp
    next
      case False
      from c have "c \<noteq> ?pp" by arith
      with False have "?v' ! c = v ! c" by (intro n_o)
      moreover from q1[of c] c False s have "custo_f (v ! ?pp) \<le> custo_f (v ! c)" by simp
      ultimately show ?thesis using e r by simp
    qed
  qed
  show ?thesis unfolding quase_heap_def
  proof (intro conjI allI impI)
    fix i assume "0 < i \<and> i < length ?v' \<and> s \<le> (i - 1) div 2 \<and> i \<noteq> ?pp"
    then have "0 < i" "i < length v" "s \<le> (i - 1) div 2" "i \<noteq> ?pp" by simp_all
    then show "custo_f (?v' ! ((i - 1) div 2)) \<le> custo_f (?v' ! i)" by (rule a)
  next
    fix c assume "s < ?pp" and "0 < c \<and> c < length ?v' \<and> (c - 1) div 2 = ?pp"
    then have "s < ?pp" "0 < c" "c < length v" "(c - 1) div 2 = ?pp" by simp_all
    then show "custo_f (?v' ! ((?pp - 1) div 2)) \<le> custo_f (?v' ! c)" by (rule b)
  qed
qed

lemma siftdown_laco_correto:
  assumes "pos < length h" and "descendente s pos" and "quase_heap (h[pos := x]) s pos"
  shows "ordenado_desde (siftdown_laco h s pos x) s \<and>
         mset (siftdown_laco h s pos x) = mset (h[pos := x])"
  using assms
proof (induction h s pos x rule: siftdown_laco.induct)
  case (1 heap startpos pos newitem)
  let ?v = "heap[pos := newitem]"
  let ?pp = "(pos - 1) div 2"
  show ?case
  proof (cases "startpos < pos \<and> menor newitem (heap ! ?pp)")
    case False
    then have r: "siftdown_laco heap startpos pos newitem = ?v"
      by (subst siftdown_laco.simps) (auto simp: Let_def)
    have "startpos < pos \<longrightarrow> custo_f (?v ! ?pp) \<le> custo_f (?v ! pos)"
    proof
      assume sp: "startpos < pos"
      then have "?pp \<noteq> pos" by arith
      with sp False "1.prems"(1) show "custo_f (?v ! ?pp) \<le> custo_f (?v ! pos)"
        by (simp add: menor_def)
    qed
    from quase_heap_fim[OF "1.prems"(3,2) this] r show ?thesis by simp
  next
    case True
    then have sp: "startpos < pos" and lt: "menor newitem (heap ! ?pp)" by simp_all
    from sp have pp: "?pp < pos" by arith
    from True have r: "siftdown_laco heap startpos pos newitem =
        siftdown_laco (heap[pos := heap ! ?pp]) startpos ?pp newitem"
      by (subst siftdown_laco.simps) (simp add: Let_def)
    have vpos: "?v ! pos = newitem" using "1.prems"(1) by simp
    have vpp: "?v ! ?pp = heap ! ?pp" using pp by simp
    have e: "(heap[pos := heap ! ?pp])[?pp := newitem] = ?v[pos := ?v ! ?pp, ?pp := ?v ! pos]"
      using vpos vpp by simp
    from lt vpos vpp have "custo_f (?v ! pos) < custo_f (?v ! ?pp)" by (simp add: menor_def)
    from quase_heap_passo[OF "1.prems"(3,2) sp _ this] "1.prems"(1) e
    have q: "quase_heap ((heap[pos := heap ! ?pp])[?pp := newitem]) startpos ?pp" by simp
    have l: "?pp < length (heap[pos := heap ! ?pp])" using pp "1.prems"(1) by simp
    from "1.IH"[OF sp refl refl lt l descendente_pai[OF "1.prems"(2) sp] q]
    have ih: "ordenado_desde (siftdown_laco (heap[pos := heap ! ?pp]) startpos ?pp newitem) startpos"
      "mset (siftdown_laco (heap[pos := heap ! ?pp]) startpos ?pp newitem) =
       mset ((heap[pos := heap ! ?pp])[?pp := newitem])" by simp_all
    have "mset (?v[pos := ?v ! ?pp, ?pp := ?v ! pos]) = mset ?v"
      using mset_swap[of ?pp ?v pos] pp "1.prems"(1) by simp
    with ih e r show ?thesis by simp
  qed
qed

text \<open>
  \<open>buraco v s pos\<close>: the state of the first loop of \<open>_siftup\<close>. The item at \<open>pos\<close>
  is out of place in both directions; everything else ruled by \<open>s\<close> is in order, and
  the parent of \<open>pos\<close> is not larger than the children of \<open>pos\<close>.
\<close>

definition buraco :: "no_navegacao list \<Rightarrow> nat \<Rightarrow> nat \<Rightarrow> bool" where
  "buraco v s pos =
     ((\<forall>i. 0 < i \<and> i < length v \<and> s \<le> (i - 1) div 2 \<and> i \<noteq> pos \<and> (i - 1) div 2 \<noteq> pos \<longrightarrow>
           custo_f (v ! ((i - 1) div 2)) \<le> custo_f (v ! i)) \<and>
      (s < pos \<longrightarrow>
         (\<forall>c. 0 < c \<and> c < length v \<and> (c - 1) div 2 = pos \<longrightarrow>
              custo_f (v ! ((pos - 1) div 2)) \<le> custo_f (v ! c))))"

lemma buraco_folha:
  assumes "buraco v s pos" and "length v \<le> 2 * pos + 1"
  shows "quase_heap v s pos"
proof -
  have "(i - 1) div 2 \<noteq> pos" if "0 < i" "i < length v" for i
    using that assms(2) by arith
  with assms(1) show ?thesis unfolding buraco_def quase_heap_def by blast
qed

lemma buraco_passo:
  assumes b: "buraco v s pos" and sp: "s \<le> pos" and m: "m < length v" "0 < m" "(m - 1) div 2 = pos"
    and menor_filho: "\<And>c. 0 < c \<Longrightarrow> c < length v \<Longrightarrow> (c - 1) div 2 = pos \<Longrightarrow>
                         custo_f (v ! m) \<le> custo_f (v ! c)"
  shows "buraco (v[pos := v ! m, m := v ! pos]) s m"
proof -
  let ?v' = "v[pos := v ! m, m := v ! pos]"
  from m have pm: "pos < m" by arith
  with m have lp: "pos < length v" by simp
  have n_pos: "?v' ! pos = v ! m" using pm lp by simp
  have n_o: "?v' ! j = v ! j" if "j \<noteq> pos" "j \<noteq> m" for j using that by simp
  from b have b1: "\<And>i. 0 < i \<Longrightarrow> i < length v \<Longrightarrow> s \<le> (i - 1) div 2 \<Longrightarrow> i \<noteq> pos \<Longrightarrow>
           (i - 1) div 2 \<noteq> pos \<Longrightarrow> custo_f (v ! ((i - 1) div 2)) \<le> custo_f (v ! i)"
    by (simp add: buraco_def)
  from b have b2: "\<And>c. s < pos \<Longrightarrow> 0 < c \<Longrightarrow> c < length v \<Longrightarrow> (c - 1) div 2 = pos \<Longrightarrow>
              custo_f (v ! ((pos - 1) div 2)) \<le> custo_f (v ! c)"
    by (simp add: buraco_def)
  have a: "custo_f (?v' ! ((i - 1) div 2)) \<le> custo_f (?v' ! i)"
    if i: "0 < i" "i < length v" "s \<le> (i - 1) div 2" "i \<noteq> m" "(i - 1) div 2 \<noteq> m" for i
  proof -
    consider (p) "i = pos" | (c) "i \<noteq> pos" "(i - 1) div 2 = pos"
      | (o) "i \<noteq> pos" "(i - 1) div 2 \<noteq> pos" by blast
    then show ?thesis
    proof cases
      case p
      with i have lt: "(pos - 1) div 2 < pos" by arith
      with p i have "s < pos" by simp
      from b2[OF this m(2,1,3)] have "custo_f (v ! ((pos - 1) div 2)) \<le> custo_f (v ! m)" .
      moreover have "?v' ! ((pos - 1) div 2) = v ! ((pos - 1) div 2)"
        using lt pm by (intro n_o) simp_all
      ultimately show ?thesis using p n_pos by simp
    next
      case c
      from menor_filho[of i] i c have "custo_f (v ! m) \<le> custo_f (v ! i)" by simp
      with c i n_o[of i] n_pos show ?thesis by simp
    next
      case o
      with i n_o[of i] n_o[of "(i - 1) div 2"] b1[of i] show ?thesis by simp
    qed
  qed
  have c: "custo_f (?v' ! ((m - 1) div 2)) \<le> custo_f (?v' ! c)"
    if c: "0 < c" "c < length v" "(c - 1) div 2 = m" for c
  proof -
    from c pm have "c \<noteq> pos" "c \<noteq> m" by arith+
    then have "?v' ! c = v ! c" by (rule n_o)
    moreover from b1[of c] c pm sp m have "custo_f (v ! m) \<le> custo_f (v ! c)" by simp
    ultimately show ?thesis using m(3) n_pos by simp
  qed
  show ?thesis unfolding buraco_def
  proof (intro conjI allI impI)
    fix i assume "0 < i \<and> i < length ?v' \<and> s \<le> (i - 1) div 2 \<and> i \<noteq> m \<and> (i - 1) div 2 \<noteq> m"
    then have "0 < i" "i < length v" "s \<le> (i - 1) div 2" "i \<noteq> m" "(i - 1) div 2 \<noteq> m"
      by simp_all
    then show "custo_f (?v' ! ((i - 1) div 2)) \<le> custo_f (?v' ! i)" by (rule a)
  next
    fix ca assume "s < m" and "0 < ca \<and> ca < length ?v' \<and> (ca - 1) div 2 = m"
    then have "0 < ca" "ca < length v" "(ca - 1) div 2 = m" by simp_all
    then show "custo_f (?v' ! ((m - 1) div 2)) \<le> custo_f (?v' ! ca)" by (rule c)
  qed
qed

lemma siftup_laco_correto:
  assumes "pos < length h" and "descendente s pos" and "buraco (h[pos := x]) s pos"
    and "siftup_laco h pos = (h', folha)"
  shows "folha < length h' \<and> descendente s folha \<and> quase_heap (h'[folha := x]) s folha \<and>
         mset (h'[folha := x]) = mset (h[pos := x])"
  using assms
proof (induction h pos arbitrary: h' folha rule: siftup_laco.induct)
  case (1 heap pos)
  let ?v = "heap[pos := x]"
  let ?n = "length heap"
  show ?case
  proof (cases "2 * pos + 1 < ?n")
    case False
    with "1.prems"(4) have r: "h' = heap" "folha = pos"
      by (subst (asm) siftup_laco.simps, simp add: Let_def)+
    from False have "length ?v \<le> 2 * pos + 1" by simp
    from buraco_folha[OF "1.prems"(3) this] r "1.prems"(1,2) show ?thesis by simp
  next
    case True
    define m where "m = (if 2 * pos + 1 + 1 < length heap \<and>
                             \<not> menor (heap ! (2 * pos + 1)) (heap ! (2 * pos + 1 + 1))
                         then 2 * pos + 1 + 1 else 2 * pos + 1)"
    from True have "siftup_laco heap pos = siftup_laco (heap[pos := heap ! m]) m"
      by (subst siftup_laco.simps) (simp add: Let_def m_def)
    with "1.prems"(4) have r: "siftup_laco (heap[pos := heap ! m]) m = (h', folha)" by simp
    have m: "m < ?n" "0 < m" "(m - 1) div 2 = pos" using True by (auto simp: m_def)
    then have pm: "pos < m" by arith
    have vm: "?v ! m = heap ! m" using pm by simp
    have vpos: "?v ! pos = x" using "1.prems"(1) by simp
    have mf: "custo_f (?v ! m) \<le> custo_f (?v ! c)"
      if c: "0 < c" "c < length ?v" "(c - 1) div 2 = pos" for c
    proof -
      from c have cc: "c = 2 * pos + 1 \<or> c = 2 * pos + 2" by arith
      then have "c \<noteq> pos" by arith
      then have vc: "?v ! c = heap ! c" by simp
      from cc c show ?thesis unfolding vc vm
        by (auto simp: m_def menor_def split: if_splits)
    qed
    from descendente_ge[OF "1.prems"(2)] have sp: "s \<le> pos" .
    from buraco_passo[OF "1.prems"(3) sp _ m(2,3) mf] m(1)
    have b: "buraco (?v[pos := ?v ! m, m := ?v ! pos]) s m" by simp
    have e: "(heap[pos := heap ! m])[m := x] = ?v[pos := ?v ! m, m := ?v ! pos]"
      using vm vpos by simp
    have l: "m < length (heap[pos := heap ! m])" using m(1) by simp
    from descendente_filho[OF "1.prems"(2) m(2,3)] have d: "descendente s m" .
    from b e have b': "buraco ((heap[pos := heap ! m])[m := x]) s m" by simp
    have ih: "folha < length h' \<and> descendente s folha \<and> quase_heap (h'[folha := x]) s folha \<and>
         mset (h'[folha := x]) = mset ((heap[pos := heap ! m])[m := x])"
      using "1.IH"[OF refl refl True refl m_def l d b' r] by simp
    have "mset (?v[pos := ?v ! m, m := ?v ! pos]) = mset ?v"
      using mset_swap[of m ?v pos] m(1) "1.prems"(1) by simp
    with ih e show ?thesis by simp
  qed
qed

lemma siftup_correto:
  assumes "pos < length h" and "ordenado_desde h (Suc pos)"
  shows "ordenado_desde (siftup h pos) pos \<and> mset (siftup h pos) = mset h"
proof -
  let ?x = "h ! pos"
  have hx: "h[pos := ?x] = h" by simp
  have b: "buraco (h[pos := ?x]) pos pos"
    unfolding hx buraco_def using assms(2) by (auto simp: ordenado_desde_def)
  obtain h' folha where r: "siftup_laco h pos = (h', folha)" by (cases "siftup_laco h pos")
  from siftup_laco_correto[OF assms(1) descendente_refl b r] hx
  have f: "folha < length h'" and d: "descendente pos folha"
    and q: "quase_heap (h'[folha := ?x]) pos folha" and m: "mset (h'[folha := ?x]) = mset h"
    by simp_all
  let ?w = "h'[folha := ?x]"
  have w: "?w ! folha = ?x" "?w[folha := ?x] = ?w" using f by simp_all
  have lw: "folha < length ?w" using f by simp
  from q w(2) have q': "quase_heap (?w[folha := ?x]) pos folha" by simp
  from siftdown_laco_correto[OF lw d q'] w m
  have "ordenado_desde (siftdown_laco ?w pos folha ?x) pos"
    "mset (siftdown_laco ?w pos folha ?x) = mset h" by simp_all
  moreover have "siftup h pos = siftdown_laco ?w pos folha ?x"
    using r w(1) by (simp add: siftup_def siftdown_def Let_def)
  ultimately show ?thesis by simp
qed

lemma heapify_laco_correto:
  "k \<le> length h \<Longrightarrow> ordenado_desde h k \<Longrightarrow>
   ordenado_desde (foldl siftup h (rev [0..<k])) 0 \<and> mset (foldl siftup h (rev [0..<k])) = mset h"
proof (induction k arbitrary: h)
  case 0
  then show ?case by simp
next
  case (Suc k)
  from Suc.prems have l: "k < length h" by simp
  from siftup_correto[OF l Suc.prems(2)]
  have o: "ordenado_desde (siftup h k) k" and m: "mset (siftup h k) = mset h" by simp_all
  from m have "length (siftup h k) = length h" by (metis size_mset)
  with l have "k \<le> length (siftup h k)" by simp
  from Suc.IH[OF this o] m show ?case by simp
qed

lemma heapify_correto: "ordenado_desde (heapify x) 0 \<and> mset (heapify x) = mset x"
proof -
  have "ordenado_desde x (length x div 2)"
    unfolding ordenado_desde_def by (intro allI impI) arith
  from heapify_laco_correto[OF _ this] show ?thesis by (simp add: heapify_def)
qed

lemma heappush_correto:
  assumes "ordenado_desde h 0"
  shows "ordenado_desde (heappush h x) 0 \<and> mset (heappush h x) = add_mset x (mset h)"
proof -
  let ?w = "h @ [x]"
  have w: "?w ! length h = x" "?w[length h := x] = ?w" by simp_all
  have q: "quase_heap ?w 0 (length h)"
    unfolding quase_heap_def
  proof (intro conjI allI impI)
    fix i assume i: "0 < i \<and> i < length ?w \<and> 0 \<le> (i - 1) div 2 \<and> i \<noteq> length h"
    then have il: "i < length h" by simp
    with i have "(i - 1) div 2 < length h" by arith
    with il assms i show "custo_f (?w ! ((i - 1) div 2)) \<le> custo_f (?w ! i)"
      by (simp add: nth_append ordenado_desde_def)
  next
    fix c assume "0 < length h" and "0 < c \<and> c < length ?w \<and> (c - 1) div 2 = length h"
    then have False by simp arith
    then show "custo_f (?w ! ((length h - 1) div 2)) \<le> custo_f (?w ! c)" ..
  qed
  from q w(2) have q': "quase_heap (?w[length h := x]) 0 (length h)" by simp
  have l: "length h < length ?w" by simp
  from siftdown_laco_correto[OF l descendente_zero q'] w
  show ?thesis by (simp add: heappush_def siftdown_def)
qed

lemma raiz_minima:
  assumes "ordenado_desde h 0" and "i < length h"
  shows "custo_f (h ! 0) \<le> custo_f (h ! i)"
  using assms(2)
proof (induction i rule: less_induct)
  case (less i)
  show ?case
  proof (cases "i = 0")
    case True
    then show ?thesis by simp
  next
    case False
    then have p: "(i - 1) div 2 < i" by arith
    with less.prems have "(i - 1) div 2 < length h" by simp
    from less.IH[OF p this] have "custo_f (h ! 0) \<le> custo_f (h ! ((i - 1) div 2))" .
    moreover from assms(1) False less.prems
    have "custo_f (h ! ((i - 1) div 2)) \<le> custo_f (h ! i)" by (simp add: ordenado_desde_def)
    ultimately show ?thesis by simp
  qed
qed

lemma heappop_correto:
  assumes "ordenado_desde h 0" and "h \<noteq> []"
  shows "\<exists>x h'. heappop h = Inr (x, h') \<and> ordenado_desde h' 0 \<and> mset h = add_mset x (mset h') \<and>
           (\<forall>y \<in> set h. custo_f x \<le> custo_f y)"
proof (cases "butlast h = []")
  case True
  with assms(2) have h: "h = [last h]" by (metis append_butlast_last_id append_Nil)
  from True assms(2) have "heappop h = Inr (last h, [])" by (simp add: heappop_def Let_def)
  moreover have "ordenado_desde [] 0" by (simp add: ordenado_desde_def)
  moreover from h have "mset h = add_mset (last h) (mset [])" by (metis mset.simps)
  moreover from h have "\<forall>y \<in> set h. custo_f (last h) \<le> custo_f y"
    by (metis empty_iff empty_set order_refl set_ConsD)
  ultimately show ?thesis by blast
next
  case False
  let ?r = "butlast h" and ?l = "last h"
  let ?w = "?r[0 := ?l]"
  from False have r0: "0 < length ?r" by (cases "butlast h") simp_all
  have hr: "h = ?r @ [?l]" using assms(2) by simp
  have rn: "?r ! i = h ! i" if "i < length ?r" for i using that by (simp add: nth_butlast)
  have o: "ordenado_desde ?w (Suc 0)"
    unfolding ordenado_desde_def
  proof (intro allI impI)
    fix i assume i: "0 < i \<and> i < length ?w \<and> Suc 0 \<le> (i - 1) div 2"
    then have il: "i < length ?r" by simp
    with i have pl: "(i - 1) div 2 < length ?r" by arith
    from il have "i < length h" by simp
    with assms(1) i have "custo_f (h ! ((i - 1) div 2)) \<le> custo_f (h ! i)"
      by (simp add: ordenado_desde_def)
    with i il pl rn show "custo_f (?w ! ((i - 1) div 2)) \<le> custo_f (?w ! i)" by simp
  qed
  have lw: "0 < length ?w" using r0 by simp
  from siftup_correto[OF lw o]
  have s: "ordenado_desde (siftup ?w 0) 0" "mset (siftup ?w 0) = mset ?w" by simp_all
  have p: "heappop h = Inr (?r ! 0, siftup ?w 0)"
    using False assms(2) by (simp add: heappop_def Let_def)
  have mw: "add_mset (?r ! 0) (mset ?w) = add_mset ?l (mset ?r)"
    using r0 by (simp add: mset_update)
  have "mset h = add_mset ?l (mset ?r)" by (subst hr) simp
  with mw s(2) have m: "mset h = add_mset (?r ! 0) (mset (siftup ?w 0))" by simp
  have "\<forall>y \<in> set h. custo_f (?r ! 0) \<le> custo_f y"
  proof
    fix y assume "y \<in> set h"
    then obtain i where "i < length h" "h ! i = y" by (auto simp: in_set_conv_nth)
    with raiz_minima[OF assms(1), of i] rn[OF r0] show "custo_f (?r ! 0) \<le> custo_f y" by simp
  qed
  with p s(1) m show ?thesis by blast
qed


section \<open>Properties of the path search\<close>

subsection \<open>The input checks\<close>

definition fora_dos_limites :: "mapa \<Rightarrow> posicao \<Rightarrow> bool" where
  "fora_dos_limites mapa p =
     (fst p < 0 \<or> fst p \<ge> int (length mapa) \<or> snd p < 0 \<or> snd p \<ge> int (length (mapa ! 0)))"

definition celula_obstaculo :: "mapa \<Rightarrow> posicao \<Rightarrow> bool" where
  "celula_obstaculo mapa p =
     (snd p < int (length (mapa ! nat (fst p))) \<and> mapa ! nat (fst p) ! nat (snd p) = CHR ''*'')"

definition celula_livre :: "mapa \<Rightarrow> posicao \<Rightarrow> bool" where
  "celula_livre mapa p =
     (snd p < int (length (mapa ! nat (fst p))) \<and> mapa ! nat (fst p) ! nat (snd p) \<noteq> CHR ''*'')"

text \<open>
  C7. Each of the five input failures of \<open>algoritmo_busca_astar\<close> is answered by an
  error of its own, raised by the input checks before the search loop is entered: the
  empty map; then, in this order, the initial position outside the rectangle, the goal
  outside the rectangle, the initial position on an obstacle, the goal on an obstacle.
  The four errors about a position carry that position; the five errors are pairwise
  different.
\<close>

theorem astar_entradas_invalidas:
  "(mapa = [] \<or> mapa ! 0 = [] \<longrightarrow> algoritmo_busca_astar mapa ini obj = Inl MapaVazio) \<and>
   (\<not> (mapa = [] \<or> mapa ! 0 = []) \<and> fora_dos_limites mapa ini \<longrightarrow>
      algoritmo_busca_astar mapa ini obj = Inl (PosicaoInicialInvalida ini)) \<and>
   (\<not> (mapa = [] \<or> mapa ! 0 = []) \<and> \<not> fora_dos_limites mapa ini \<and> fora_dos_limites mapa obj \<longrightarrow>
      algoritmo_busca_astar mapa ini obj = Inl (PosicaoObjetivoInvalida obj)) \<and>
   (\<not> (mapa = [] \<or> mapa ! 0 = []) \<and> \<not> fora_dos_limites mapa ini \<and> \<not> fora_dos_limites mapa obj \<and>
    celula_obstaculo mapa ini \<longrightarrow>
      algoritmo_busca_astar mapa ini obj = Inl (PosicaoInicialObstaculo ini)) \<and>
   (\<not> (mapa = [] \<or> mapa ! 0 = []) \<and> \<not> fora_dos_limites mapa ini \<and> \<not> fora_dos_limites mapa obj \<and>
    celula_livre mapa ini \<and> celula_obstaculo mapa obj \<longrightarrow>
      algoritmo_busca_astar mapa ini obj = Inl (PosicaoObjetivoObstaculo obj)) \<and>
   distinct [MapaVazio, PosicaoInicialInvalida a, PosicaoObjetivoInvalida b,
             PosicaoInicialObstaculo c, PosicaoObjetivoObstaculo d]"
  by (auto simp: algoritmo_busca_astar_def fora_dos_limites_def celula_obstaculo_def
      celula_livre_def indice_nao_negativo)


theorem astar_entradas_invalidas_witness:
  "algoritmo_busca_astar [] (0, 0) (0, 0) = Inl MapaVazio \<and>
   algoritmo_busca_astar [''  '', ''  ''] (2, 0) (0, 0) = Inl (PosicaoInicialInvalida (2, 0)) \<and>
   algoritmo_busca_astar [''  '', ''  ''] (0, 0) (0, - 1) = Inl (PosicaoObjetivoInvalida (0, - 1)) \<and>
   algoritmo_busca_astar [''* '', ''  ''] (0, 0) (1, 1) = Inl (PosicaoInicialObstaculo (0, 0)) \<and>
   algoritmo_busca_astar [''  '', '' *''] (0, 0) (1, 1) = Inl (PosicaoObjetivoObstaculo (1, 1))"
proof -
  have a: "algoritmo_busca_astar [] (0, 0) (0, 0) = Inl MapaVazio"
    using astar_entradas_invalidas[of "[]" "(0, 0)" "(0, 0)"] by simp
  have b: "algoritmo_busca_astar [''  '', ''  ''] (2, 0) (0, 0) = Inl (PosicaoInicialInvalida (2, 0))"
    using astar_entradas_invalidas[of "[''  '', ''  '']" "(2, 0)" "(0, 0)"]
    by (simp add: fora_dos_limites_def)
  have c: "algoritmo_busca_astar [''  '', ''  ''] (0, 0) (0, - 1) = Inl (PosicaoObjetivoInvalida (0, - 1))"
    using astar_entradas_invalidas[of "[''  '', ''  '']" "(0, 0)" "(0, - 1)"]
    by (simp add: fora_dos_limites_def)
  have d: "algoritmo_busca_astar [''* '', ''  ''] (0, 0) (1, 1) = Inl (PosicaoInicialObstaculo (0, 0))"
    using astar_entradas_invalidas[of "[''* '', ''  '']" "(0, 0)" "(1, 1)"]
    by (simp add: fora_dos_limites_def celula_obstaculo_def)
  have e: "algoritmo_busca_astar [''  '', '' *''] (0, 0) (1, 1) = Inl (PosicaoObjetivoObstaculo (1, 1))"
    using astar_entradas_invalidas[of "[''  '', '' *'']" "(0, 0)" "(1, 1)"]
    by (simp add: fora_dos_limites_def celula_obstaculo_def celula_livre_def)
  from a b c d e show ?thesis by blast
qed

section \<open>Correctness of the path search\<close>

subsection \<open>Paths in the grid\<close>

text \<open>
  The graph the search works on: the free cells of the rectangle, two cells joined when
  they differ by one step in one coordinate. A path is a non-empty list of free cells,
  each adjacent to the next.
\<close>

definition livre :: "mapa \<Rightarrow> posicao \<Rightarrow> bool" where
  "livre mapa p = (0 \<le> fst p \<and> fst p < int (length mapa) \<and>
                   0 \<le> snd p \<and> snd p < int (length (mapa ! 0)) \<and>
                   mapa ! nat (fst p) ! nat (snd p) \<noteq> CHR ''*'')"

definition adjacente :: "posicao \<Rightarrow> posicao \<Rightarrow> bool" where
  "adjacente p q = (\<bar>fst p - fst q\<bar> + \<bar>snd p - snd q\<bar> = 1)"

fun caminho_valido :: "mapa \<Rightarrow> posicao list \<Rightarrow> bool" where
  "caminho_valido mapa [] = False"
| "caminho_valido mapa [p] = livre mapa p"
| "caminho_valido mapa (p # q # ps) = (livre mapa p \<and> adjacente p q \<and> caminho_valido mapa (q # ps))"

definition caminho_entre :: "mapa \<Rightarrow> posicao \<Rightarrow> posicao \<Rightarrow> posicao list \<Rightarrow> bool" where
  "caminho_entre mapa a b ps = (caminho_valido mapa ps \<and> hd ps = a \<and> last ps = b)"

definition alcancavel :: "mapa \<Rightarrow> posicao \<Rightarrow> posicao \<Rightarrow> bool" where
  "alcancavel mapa a b = (\<exists>ps. caminho_entre mapa a b ps)"

definition retangular :: "mapa \<Rightarrow> bool" where
  "retangular mapa = list_all (\<lambda>linha. length linha = length (mapa ! 0)) mapa"

lemma adjacente_sym: "adjacente p q = adjacente q p"
  by (auto simp: adjacente_def)

lemma caminho_valido_nao_vazio: "caminho_valido mapa ps \<Longrightarrow> ps \<noteq> []"
  by auto

lemma caminho_valido_Cons:
  "caminho_valido mapa (q # ps) =
     (livre mapa q \<and> (ps = [] \<or> (adjacente q (hd ps) \<and> caminho_valido mapa ps)))"
  by (cases ps) auto

lemma caminho_valido_snoc:
  "caminho_valido mapa (ps @ [q]) =
     (livre mapa q \<and> (ps = [] \<or> (adjacente (last ps) q \<and> caminho_valido mapa ps)))"
proof (induction ps rule: caminho_valido.induct[of _ mapa])
  case (1 m)
  then show ?case by simp
next
  case (2 m p)
  then show ?case by auto
next
  case (3 m p r ps)
  then show ?case by auto
qed

lemma caminho_valido_rev: "caminho_valido mapa (rev ps) = caminho_valido mapa ps"
proof (induction ps)
  case Nil
  then show ?case by simp
next
  case (Cons p ps)
  show ?case
  proof (cases "ps = []")
    case True
    then show ?thesis by simp
  next
    case False
    then have "last (rev ps) = hd ps" by (simp add: last_rev)
    with Cons False show ?thesis
      by (simp add: caminho_valido_snoc caminho_valido_Cons adjacente_sym)
  qed
qed

lemma caminho_valido_livre: "caminho_valido mapa ps \<Longrightarrow> p \<in> set ps \<Longrightarrow> livre mapa p"
  by (induction ps rule: caminho_valido.induct[of _ mapa]) auto

lemma caminho_valido_adjacente:
  "caminho_valido mapa ps \<Longrightarrow> Suc i < length ps \<Longrightarrow> adjacente (ps ! i) (ps ! Suc i)"
proof (induction ps arbitrary: i rule: caminho_valido.induct[of _ mapa])
  case (3 m p q ps)
  then show ?case by (cases i) auto
qed auto

lemma caminho_valido_take:
  "caminho_valido mapa ps \<Longrightarrow> 0 < k \<Longrightarrow> caminho_valido mapa (take k ps)"
proof (induction ps arbitrary: k rule: caminho_valido.induct[of _ mapa])
  case (3 m p q ps)
  from "3.prems" obtain j where k: "k = Suc j" by (cases k) auto
  show ?case
  proof (cases j)
    case 0
    with k "3.prems" show ?thesis by simp
  next
    case (Suc l)
    with k "3.prems" "3.IH"[of j] show ?thesis by simp
  qed
qed (auto simp: take_Cons')

text \<open>The heuristic changes by at most one along a step.\<close>

lemma manhattan_adjacente:
  "adjacente p q \<Longrightarrow>
   calcular_distancia_manhattan p obj \<le> calcular_distancia_manhattan q obj + 1"
  by (auto simp: adjacente_def calcular_distancia_manhattan_def)

lemma manhattan_caminho:
  "caminho_valido mapa ps \<Longrightarrow> i \<le> j \<Longrightarrow> j < length ps \<Longrightarrow>
   calcular_distancia_manhattan (ps ! i) obj \<le> calcular_distancia_manhattan (ps ! j) obj + int (j - i)"
proof (induction "j - i" arbitrary: i)
  case 0
  then show ?case by simp
next
  case (Suc d)
  then have s: "Suc i \<le> j" "d = j - Suc i" by simp_all
  from Suc.hyps(1)[OF s(2) Suc.prems(1) s(1) Suc.prems(3)]
  have "calcular_distancia_manhattan (ps ! Suc i) obj
        \<le> calcular_distancia_manhattan (ps ! j) obj + int (j - Suc i)" .
  moreover from s Suc.prems have "Suc i < length ps" by simp
  from manhattan_adjacente[OF caminho_valido_adjacente[OF Suc.prems(1) this], of obj]
  have "calcular_distancia_manhattan (ps ! i) obj \<le> calcular_distancia_manhattan (ps ! Suc i) obj + 1" .
  ultimately show ?case using s by simp
qed

lemma manhattan_zero: "calcular_distancia_manhattan p p = 0"
  by (simp add: calcular_distancia_manhattan_def)

subsection \<open>The neighbours the search expands\<close>

lemma vizinhos_laco_livres:
  assumes "sem_linha_curta mapa"
  shows "\<exists>vs. vizinhos_laco mapa p ds acc = Inr vs \<and>
           set vs = set acc \<union> {q. livre mapa q \<and> (\<exists>d \<in> set ds. q = (fst p + fst d, snd p + snd d))}"
proof (induction ds arbitrary: acc)
  case Nil
  then show ?case by simp
next
  case (Cons delta ds)
  let ?q = "(fst p + fst delta, snd p + snd delta)"
  let ?S = "\<lambda>acc ds. set acc \<union> {q. livre mapa q \<and> (\<exists>d \<in> set ds. q = (fst p + fst d, snd p + snd d))}"
  show ?case
  proof (cases "0 \<le> fst ?q \<and> fst ?q < int (length mapa) \<and>
                0 \<le> snd ?q \<and> snd ?q < int (length (mapa ! 0))")
    case False
    then have nl: "\<not> livre mapa ?q" by (auto simp: livre_def)
    from False have e: "vizinhos_laco mapa p (delta # ds) acc = vizinhos_laco mapa p ds acc"
      by (auto simp: Let_def)
    from nl have "?S acc (delta # ds) = ?S acc ds" by auto
    with Cons.IH[of acc] e show ?thesis by simp
  next
    case True
    then have "nat (fst ?q) < length mapa" by auto
    then have "mapa ! nat (fst ?q) \<in> set mapa" by (rule nth_mem)
    with assms have "length (mapa ! 0) \<le> length (mapa ! nat (fst ?q))"
      by (simp add: sem_linha_curta_def list_all_iff)
    with True have i: "indice (mapa ! nat (fst ?q)) (snd ?q) = Inr (mapa ! nat (fst ?q) ! nat (snd ?q))"
      by (simp add: indice_nao_negativo)
    show ?thesis
    proof (cases "mapa ! nat (fst ?q) ! nat (snd ?q) = CHR ''*''")
      case obst: True
      then have nl: "\<not> livre mapa ?q" by (simp add: livre_def)
      from True i obst have e: "vizinhos_laco mapa p (delta # ds) acc = vizinhos_laco mapa p ds acc"
        by (simp add: Let_def)
      from nl have "?S acc (delta # ds) = ?S acc ds" by auto
      with Cons.IH[of acc] e show ?thesis by simp
    next
      case False
      with True have l: "livre mapa ?q" by (simp add: livre_def)
      from True i False
      have e: "vizinhos_laco mapa p (delta # ds) acc = vizinhos_laco mapa p ds (acc @ [?q])"
        by (simp add: Let_def)
      from l have "?S acc (delta # ds) = ?S (acc @ [?q]) ds" by auto
      with Cons.IH[of "acc @ [?q]"] e show ?thesis by simp
    qed
  qed
qed

lemma adjacente_direcoes:
  "adjacente p q = (\<exists>d \<in> set direcoes. q = (fst p + fst d, snd p + snd d))"
proof -
  obtain a b where p: "p = (a, b)" by (cases p)
  obtain c d where q: "q = (c, d)" by (cases q)
  show ?thesis unfolding p q adjacente_def direcoes_def by auto
qed

lemma obter_vizinhos_validos_livres:
  assumes "sem_linha_curta mapa"
  shows "\<exists>vs. obter_vizinhos_validos p mapa = Inr vs \<and> set vs = {q. livre mapa q \<and> adjacente p q}"
  using vizinhos_laco_livres[OF assms, of p direcoes "[]"]
  by (simp add: obter_vizinhos_validos_def adjacente_direcoes)

subsection \<open>The invariant of the main loop\<close>

text \<open>
  A node is sound when the chain of its parents is a path from the initial position
  to its own position, its cost \<open>g\<close> is the number of steps of that path, and its
  \<open>h\<close> and \<open>f\<close> are the heuristic and the sum.
\<close>

definition no_ok :: "mapa \<Rightarrow> posicao \<Rightarrow> posicao \<Rightarrow> no_navegacao \<Rightarrow> bool" where
  "no_ok mapa ini obj n =
     (caminho_valido mapa (cadeia n) \<and> last (cadeia n) = ini \<and>
      custo_g n = int (length (cadeia n)) - 1 \<and>
      custo_h n = calcular_distancia_manhattan (posicao n) obj \<and>
      custo_f n = custo_g n + custo_h n)"

lemma cadeia_nao_vazia [simp]: "cadeia n \<noteq> []"
  by (induction n rule: cadeia.induct) auto

lemma hd_cadeia [simp]: "hd (cadeia n) = posicao n"
  by (induction n rule: cadeia.induct) auto

lemma cadeia_filho: "no_pai a = Some x \<Longrightarrow> cadeia a = posicao a # cadeia x"
  by (cases a) auto

text \<open>\<open>limite mapa ini p b\<close>: no path from the initial position to \<open>p\<close> has fewer than \<open>b\<close> cells.\<close>

definition limite :: "mapa \<Rightarrow> posicao \<Rightarrow> posicao \<Rightarrow> int \<Rightarrow> bool" where
  "limite mapa ini p b = (\<forall>ps. caminho_entre mapa ini p ps \<longrightarrow> b \<le> int (length ps))"

lemma limite_mono: "limite mapa ini p b \<Longrightarrow> b' \<le> b \<Longrightarrow> limite mapa ini p b'"
  by (fastforce simp: limite_def)

definition estrutura :: "busca \<Rightarrow> bool" where
  "estrutura st =
     (ordenado_desde (fila_prioridade st) 0 \<and> distinct (fila_prioridade st) \<and>
      (\<forall>n \<in> set (fila_prioridade st).
          nos_abertos st (posicao n) = Some n \<and> posicao n \<notin> nos_visitados st) \<and>
      (\<forall>p n. nos_abertos st p = Some n \<longrightarrow> n \<in> set (fila_prioridade st) \<and> posicao n = p))"

definition fronteira_ok :: "mapa \<Rightarrow> posicao \<Rightarrow> busca \<Rightarrow> (posicao \<times> posicao) set \<Rightarrow> bool" where
  "fronteira_ok mapa ini st P =
     (\<forall>p \<in> nos_visitados st. \<forall>q. livre mapa q \<and> adjacente p q \<and> (p, q) \<notin> P \<longrightarrow>
        q \<in> nos_visitados st \<or>
        (\<exists>n \<in> set (fila_prioridade st). posicao n = q \<and> limite mapa ini p (custo_g n)))"

definition inicio_ok :: "posicao \<Rightarrow> busca \<Rightarrow> bool" where
  "inicio_ok ini st =
     (ini \<in> nos_visitados st \<or> (\<exists>n \<in> set (fila_prioridade st). posicao n = ini \<and> custo_g n = 0))"

definition invariante :: "mapa \<Rightarrow> posicao \<Rightarrow> posicao \<Rightarrow> busca \<Rightarrow> (posicao \<times> posicao) set \<Rightarrow> bool" where
  "invariante mapa ini obj st P =
     (estrutura st \<and> (\<forall>n \<in> set (fila_prioridade st). no_ok mapa ini obj n) \<and>
      inicio_ok ini st \<and> fronteira_ok mapa ini st P \<and> obj \<notin> nos_visitados st)"

text \<open>
  What processing one neighbour does to the state: nothing, when the neighbour is
  visited or its open node is at least as good; otherwise the queue holds a new node
  for the neighbour in place of any older one.
\<close>

lemma processar_vizinho_visitados:
  "nos_visitados (processar_vizinho obj x st q) = nos_visitados st"
  by (simp add: processar_vizinho_def Let_def split: option.split)

lemma processar_vizinho_efeito:
  fixes st :: busca and obj q :: posicao and x :: no_navegacao
  assumes e: "estrutura st"
  obtains
    (igual) "processar_vizinho obj x st q = st"
      "q \<in> nos_visitados st \<or>
       (\<exists>n \<in> set (fila_prioridade st). posicao n = q \<and> custo_g n \<le> custo_g x + 1)"
  | (troca) a where "q \<notin> nos_visitados st" "posicao a = q" "custo_g a = custo_g x + 1"
      "no_pai a = Some x" "custo_f a = custo_g a + calcular_distancia_manhattan q obj"
      "custo_h a = calcular_distancia_manhattan q obj \<or>
         (\<exists>n \<in> set (fila_prioridade st). posicao n = q \<and> custo_h a = custo_h n)"
      "nos_abertos (processar_vizinho obj x st q) = (nos_abertos st)(q \<mapsto> a)"
      "set (fila_prioridade (processar_vizinho obj x st q))
         = insert a {n \<in> set (fila_prioridade st). posicao n \<noteq> q}"
      "ordenado_desde (fila_prioridade (processar_vizinho obj x st q)) 0"
      "distinct (fila_prioridade (processar_vizinho obj x st q))"
      "\<forall>n \<in> set (fila_prioridade st). posicao n = q \<longrightarrow> custo_g a < custo_g n"
proof (cases "q \<in> nos_visitados st")
  case True
  then show ?thesis by (intro igual) (simp_all add: processar_visitado)
next
  case nv: False
  let ?st' = "processar_vizinho obj x st q"
  from e have ord: "ordenado_desde (fila_prioridade st) 0" and dis: "distinct (fila_prioridade st)"
    and ab: "\<And>n. n \<in> set (fila_prioridade st) \<Longrightarrow> nos_abertos st (posicao n) = Some n"
    and ba: "\<And>p n. nos_abertos st p = Some n \<Longrightarrow> n \<in> set (fila_prioridade st) \<and> posicao n = p"
    by (auto simp: estrutura_def)
  show ?thesis
  proof (cases "nos_abertos st q")
    case None
    define a where "a = novo_no q (custo_g x + 1) (calcular_distancia_manhattan q obj) (Some x)"
    from processar_novo[OF nv None a_def]
    have s: "?st' = st\<lparr>fila_prioridade := heappush (fila_prioridade st) a,
                     nos_abertos := (nos_abertos st)(q \<mapsto> a)\<rparr>" .
    from heappush_correto[OF ord, of a]
    have h: "ordenado_desde (heappush (fila_prioridade st) a) 0"
      "mset (heappush (fila_prioridade st) a) = mset (a # fila_prioridade st)" by simp_all
    have nq: "posicao n \<noteq> q" if "n \<in> set (fila_prioridade st)" for n
      using ab[OF that] None by auto
    have pa: "posicao a = q" by (simp add: a_def novo_no_def)
    with nq have "a \<notin> set (fila_prioridade st)" by auto
    with dis have "distinct (a # fila_prioridade st)" by simp
    with mset_eq_imp_distinct_iff[OF h(2)]
    have d': "distinct (heappush (fila_prioridade st) a)" by blast
    from h(2) have "set (heappush (fila_prioridade st) a) = set (a # fila_prioridade st)"
      by (rule mset_eq_setD)
    then have "set (heappush (fila_prioridade st) a) = insert a (set (fila_prioridade st))"
      by simp
    with nq have se: "set (heappush (fila_prioridade st) a)
        = insert a {n \<in> set (fila_prioridade st). posicao n \<noteq> q}" by auto
    show ?thesis
    proof (rule troca[of a])
      show "q \<notin> nos_visitados st" by (rule nv)
      show "posicao a = q" by (rule pa)
      show "custo_g a = custo_g x + 1" by (simp add: a_def novo_no_def)
      show "no_pai a = Some x" by (simp add: a_def novo_no_def)
      show "custo_f a = custo_g a + calcular_distancia_manhattan q obj"
        by (simp add: a_def novo_no_def)
      show "custo_h a = calcular_distancia_manhattan q obj \<or>
         (\<exists>n \<in> set (fila_prioridade st). posicao n = q \<and> custo_h a = custo_h n)"
        by (simp add: a_def novo_no_def)
      show "nos_abertos ?st' = (nos_abertos st)(q \<mapsto> a)" by (simp add: s)
      show "set (fila_prioridade ?st') = insert a {n \<in> set (fila_prioridade st). posicao n \<noteq> q}"
        using se by (simp add: s)
      show "ordenado_desde (fila_prioridade ?st') 0" using h(1) by (simp add: s)
      show "distinct (fila_prioridade ?st')" using d' by (simp add: s)
      show "\<forall>n \<in> set (fila_prioridade st). posicao n = q \<longrightarrow> custo_g a < custo_g n"
        using nq by blast
    qed
  next
    case (Some ex)
    from ba[OF Some] have exf: "ex \<in> set (fila_prioridade st)" and pex: "posicao ex = q" by simp_all
    show ?thesis
    proof (cases "custo_g x + 1 < custo_g ex")
      case False
      show ?thesis
      proof (rule igual)
        show "?st' = st" by (rule processar_pior[OF nv Some False])
        from exf pex False
        show "q \<in> nos_visitados st \<or>
          (\<exists>n \<in> set (fila_prioridade st). posicao n = q \<and> custo_g n \<le> custo_g x + 1)"
          by (intro disjI2 bexI[of _ ex]) simp_all
      qed
    next
      case True
      define a where "a = NoNavegacao (posicao ex) (custo_g x + 1) (custo_h ex)
             (custo_g x + 1 + calcular_distancia_manhattan q obj) (Some x)"
      let ?f = "\<lambda>n. if posicao n = q then a else n"
      from processar_melhor[OF nv Some True a_def]
      have s: "?st' = st\<lparr>nos_abertos := (nos_abertos st)(q \<mapsto> a),
                  fila_prioridade := heapify (map ?f (fila_prioridade st))\<rparr>" .
      from heapify_correto[of "map ?f (fila_prioridade st)"]
      have h: "ordenado_desde (heapify (map ?f (fila_prioridade st))) 0"
        "mset (heapify (map ?f (fila_prioridade st))) = mset (map ?f (fila_prioridade st))"
        by simp_all
      have pa: "posicao a = q" by (simp add: a_def pex)
      have un: "n = ex" if "n \<in> set (fila_prioridade st)" "posicao n = q" for n
        using ab[OF that(1)] that(2) Some by simp
      have "inj_on ?f (set (fila_prioridade st))"
      proof (rule inj_onI)
        fix n m assume nm: "n \<in> set (fila_prioridade st)" "m \<in> set (fila_prioridade st)" "?f n = ?f m"
        show "n = m"
        proof (cases "posicao n = q")
          case pn: True
          show ?thesis
          proof (cases "posicao m = q")
            case True
            from un[OF nm(1) pn] un[OF nm(2) True] show ?thesis by simp
          next
            case False
            with pn nm pa show ?thesis by simp
          qed
        next
          case pn: False
          show ?thesis
          proof (cases "posicao m = q")
            case True
            with pn nm pa show ?thesis by simp
          next
            case False
            with pn nm show ?thesis by simp
          qed
        qed
      qed
      with dis have "distinct (map ?f (fila_prioridade st))" by (simp only: distinct_map simp_thms)
      with mset_eq_imp_distinct_iff[OF h(2)]
      have d': "distinct (heapify (map ?f (fila_prioridade st)))" by blast
      from h(2) have "set (heapify (map ?f (fila_prioridade st))) = set (map ?f (fila_prioridade st))"
        by (rule mset_eq_setD)
      also have "\<dots> = ?f ` set (fila_prioridade st)" by (rule set_map)
      also have "\<dots> = insert a {n \<in> set (fila_prioridade st). posicao n \<noteq> q}"
      proof (intro set_eqI iffI)
        fix n assume "n \<in> ?f ` set (fila_prioridade st)"
        then obtain m where "m \<in> set (fila_prioridade st)" "n = ?f m" by blast
        then show "n \<in> insert a {n \<in> set (fila_prioridade st). posicao n \<noteq> q}"
          by (cases "posicao m = q") simp_all
      next
        fix n assume n: "n \<in> insert a {n \<in> set (fila_prioridade st). posicao n \<noteq> q}"
        show "n \<in> ?f ` set (fila_prioridade st)"
        proof (cases "n = a")
          case True
          with exf pex show ?thesis by (intro image_eqI[of _ _ ex]) simp_all
        next
          case False
          with n show ?thesis by (intro image_eqI[of _ _ n]) simp_all
        qed
      qed
      finally have se: "set (heapify (map ?f (fila_prioridade st)))
          = insert a {n \<in> set (fila_prioridade st). posicao n \<noteq> q}" .
      show ?thesis
      proof (rule troca[of a])
        show "q \<notin> nos_visitados st" by (rule nv)
        show "posicao a = q" by (rule pa)
        show "custo_g a = custo_g x + 1" by (simp add: a_def)
        show "no_pai a = Some x" by (simp add: a_def)
        show "custo_f a = custo_g a + calcular_distancia_manhattan q obj" by (simp add: a_def)
        have "custo_h a = custo_h ex" by (simp add: a_def)
        with exf pex show "custo_h a = calcular_distancia_manhattan q obj \<or>
           (\<exists>n \<in> set (fila_prioridade st). posicao n = q \<and> custo_h a = custo_h n)"
          by blast
        show "nos_abertos ?st' = (nos_abertos st)(q \<mapsto> a)" by (simp add: s)
        show "set (fila_prioridade ?st') = insert a {n \<in> set (fila_prioridade st). posicao n \<noteq> q}"
          using se by (simp add: s)
        show "ordenado_desde (fila_prioridade ?st') 0" using h(1) by (simp add: s)
        show "distinct (fila_prioridade ?st')" using d' by (simp add: s)
        have "custo_g a < custo_g ex" using True by (simp add: a_def)
        with un show "\<forall>n \<in> set (fila_prioridade st). posicao n = q \<longrightarrow> custo_g a < custo_g n"
          by blast
      qed
    qed
  qed
qed

lemma no_ok_filho:
  assumes x: "no_ok mapa ini obj x" and a: "no_pai a = Some x" "custo_g a = custo_g x + 1"
    "custo_f a = custo_g a + calcular_distancia_manhattan (posicao a) obj"
    "custo_h a = calcular_distancia_manhattan (posicao a) obj"
    and q: "livre mapa (posicao a)" "adjacente (posicao x) (posicao a)"
  shows "no_ok mapa ini obj a"
proof -
  have c: "cadeia a = posicao a # cadeia x" using a(1) by (rule cadeia_filho)
  from x have v: "caminho_valido mapa (cadeia x)" and l: "last (cadeia x) = ini"
    and g: "custo_g x = int (length (cadeia x)) - 1" by (simp_all add: no_ok_def)
  have "caminho_valido mapa (cadeia a)"
    unfolding c using v q by (simp add: caminho_valido_Cons adjacente_sym)
  moreover have "last (cadeia a) = ini" unfolding c using l by simp
  moreover have "custo_g a = int (length (cadeia a)) - 1" unfolding c using g a(2) by simp
  ultimately show ?thesis using a(3,4) by (simp add: no_ok_def)
qed

lemma no_ok_g_nao_negativo: "no_ok mapa ini obj x \<Longrightarrow> 0 \<le> custo_g x"
proof -
  assume "no_ok mapa ini obj x"
  then have "custo_g x = int (length (cadeia x)) - 1" by (simp add: no_ok_def)
  moreover have "0 < length (cadeia x)" by simp
  ultimately show ?thesis by linarith
qed

lemma processar_vizinho_invariante:
  assumes inv: "invariante mapa ini obj st (insert (posicao x, q) P)"
    and x: "no_ok mapa ini obj x" "posicao x \<in> nos_visitados st"
           "limite mapa ini (posicao x) (custo_g x + 1)"
    and q: "livre mapa q" "adjacente (posicao x) q"
  shows "invariante mapa ini obj (processar_vizinho obj x st q) P"
proof -
  let ?st' = "processar_vizinho obj x st q"
  let ?F = "set (fila_prioridade st)" and ?V = "nos_visitados st"
  from inv have e: "estrutura st" and ok: "\<And>n. n \<in> ?F \<Longrightarrow> no_ok mapa ini obj n"
    and ini: "inicio_ok ini st" and fr: "fronteira_ok mapa ini st (insert (posicao x, q) P)"
    and ob: "obj \<notin> ?V"
    by (simp_all add: invariante_def)
  from e have ab: "\<And>n. n \<in> ?F \<Longrightarrow> nos_abertos st (posicao n) = Some n"
    and nv: "\<And>n. n \<in> ?F \<Longrightarrow> posicao n \<notin> ?V"
    and ba: "\<And>p n. nos_abertos st p = Some n \<Longrightarrow> n \<in> ?F \<and> posicao n = p"
    by (auto simp: estrutura_def)
  from fr have fr': "\<And>p r. p \<in> ?V \<Longrightarrow> livre mapa r \<Longrightarrow> adjacente p r \<Longrightarrow>
      (p, r) \<noteq> (posicao x, q) \<Longrightarrow> (p, r) \<notin> P \<Longrightarrow>
      r \<in> ?V \<or> (\<exists>n \<in> ?F. posicao n = r \<and> limite mapa ini p (custo_g n))"
    unfolding fronteira_ok_def by blast
  have vis: "nos_visitados ?st' = ?V" by (rule processar_vizinho_visitados)
  from e show ?thesis
  proof (cases rule: processar_vizinho_efeito[of st obj x q])
    case igual
    have "fronteira_ok mapa ini st P"
      unfolding fronteira_ok_def
    proof (intro ballI allI impI)
      fix p r assume p: "p \<in> ?V" and r: "livre mapa r \<and> adjacente p r \<and> (p, r) \<notin> P"
      show "r \<in> ?V \<or> (\<exists>n \<in> ?F. posicao n = r \<and> limite mapa ini p (custo_g n))"
      proof (cases "(p, r) = (posicao x, q)")
        case False
        with fr'[OF p] r show ?thesis by blast
      next
        case True
        from igual(2) show ?thesis
        proof
          assume "q \<in> ?V"
          with True show ?thesis by simp
        next
          assume "\<exists>n \<in> ?F. posicao n = q \<and> custo_g n \<le> custo_g x + 1"
          then obtain n where n: "n \<in> ?F" "posicao n = q" "custo_g n \<le> custo_g x + 1" by blast
          from limite_mono[OF x(3) n(3)] True n(1,2) show ?thesis by auto
        qed
      qed
    qed
    with e ok ini ob igual(1) show ?thesis by (simp add: invariante_def)
  next
    case (troca a)
    let ?F' = "set (fila_prioridade ?st')"
    have F': "?F' = insert a {n \<in> ?F. posicao n \<noteq> q}" by (rule troca(8))
    have A': "nos_abertos ?st' = (nos_abertos st)(q \<mapsto> a)" by (rule troca(7))
    have ha: "custo_h a = calcular_distancia_manhattan q obj"
    proof (cases "custo_h a = calcular_distancia_manhattan q obj")
      case True
      then show ?thesis .
    next
      case False
      with troca(6) obtain n where n: "n \<in> ?F" "posicao n = q" "custo_h a = custo_h n" by blast
      from ok[OF n(1)] n(2,3) show ?thesis by (simp add: no_ok_def)
    qed
    have oka: "no_ok mapa ini obj a"
    proof (rule no_ok_filho[OF x(1) troca(4) troca(3)])
      show "custo_f a = custo_g a + calcular_distancia_manhattan (posicao a) obj"
        using troca(5) troca(2) by simp
      show "custo_h a = calcular_distancia_manhattan (posicao a) obj"
        using ha troca(2) by simp
      show "livre mapa (posicao a)" using q(1) troca(2) by simp
      show "adjacente (posicao x) (posicao a)" using q(2) troca(2) by simp
    qed
    have est: "estrutura ?st'"
      unfolding estrutura_def
    proof (intro conjI ballI allI impI)
      show "ordenado_desde (fila_prioridade ?st') 0" by (rule troca(9))
      show "distinct (fila_prioridade ?st')" by (rule troca(10))
    next
      fix n assume "n \<in> ?F'"
      then consider "n = a" | "n \<in> ?F" "posicao n \<noteq> q" unfolding F' by blast
      then show "nos_abertos ?st' (posicao n) = Some n"
      proof cases
        case 1
        then show ?thesis using troca(2) A' by simp
      next
        case 2
        with ab[OF 2(1)] A' show ?thesis by simp
      qed
    next
      fix n assume "n \<in> ?F'"
      then consider "n = a" | "n \<in> ?F" "posicao n \<noteq> q" unfolding F' by blast
      then show "posicao n \<notin> nos_visitados ?st'"
      proof cases
        case 1
        then show ?thesis using troca(1,2) vis by simp
      next
        case 2
        with nv[OF 2(1)] vis show ?thesis by simp
      qed
    next
      fix p n assume pn: "nos_abertos ?st' p = Some n"
      show "n \<in> ?F'"
      proof (cases "p = q")
        case True
        with pn A' have "n = a" by simp
        then show ?thesis unfolding F' by simp
      next
        case False
        with pn A' have "nos_abertos st p = Some n" by simp
        from ba[OF this] False show ?thesis unfolding F' by simp
      qed
    next
      fix p n assume pn: "nos_abertos ?st' p = Some n"
      show "posicao n = p"
      proof (cases "p = q")
        case True
        with pn A' have "n = a" by simp
        with troca(2) True show ?thesis by simp
      next
        case False
        with pn A' have "nos_abertos st p = Some n" by simp
        from ba[OF this] show ?thesis by simp
      qed
    qed
    have oks: "\<forall>n \<in> ?F'. no_ok mapa ini obj n"
      unfolding F' using oka ok by blast
    have ini': "inicio_ok ini ?st'"
    proof (cases "ini \<in> ?V")
      case True
      with vis show ?thesis by (simp add: inicio_ok_def)
    next
      case False
      with ini obtain n where n: "n \<in> ?F" "posicao n = ini" "custo_g n = 0"
        by (auto simp: inicio_ok_def)
      have "posicao n \<noteq> q"
      proof
        assume "posicao n = q"
        with troca(11) n(1) have "custo_g a < custo_g n" by blast
        with n(3) troca(3) no_ok_g_nao_negativo[OF x(1)] show False by simp
      qed
      with n have "n \<in> ?F'" unfolding F' by simp
      with n(2,3) show ?thesis unfolding inicio_ok_def by blast
    qed
    have fro: "fronteira_ok mapa ini ?st' P"
      unfolding fronteira_ok_def
    proof (intro ballI allI impI)
      fix p r assume p': "p \<in> nos_visitados ?st'" and r: "livre mapa r \<and> adjacente p r \<and> (p, r) \<notin> P"
      from p' vis have p: "p \<in> ?V" by simp
      have aF: "a \<in> ?F'" unfolding F' by simp
      show "r \<in> nos_visitados ?st' \<or> (\<exists>n \<in> ?F'. posicao n = r \<and> limite mapa ini p (custo_g n))"
      proof (cases "(p, r) = (posicao x, q)")
        case True
        with x(3) troca(2,3) have "posicao a = r \<and> limite mapa ini p (custo_g a)" by simp
        with aF show ?thesis by blast
      next
        case False
        from fr'[OF p _ _ False] r
        have "r \<in> ?V \<or> (\<exists>n \<in> ?F. posicao n = r \<and> limite mapa ini p (custo_g n))" by blast
        then show ?thesis
        proof
          assume "r \<in> ?V"
          with vis show ?thesis by simp
        next
          assume "\<exists>n \<in> ?F. posicao n = r \<and> limite mapa ini p (custo_g n)"
          then obtain n where n: "n \<in> ?F" "posicao n = r" "limite mapa ini p (custo_g n)" by blast
          show ?thesis
          proof (cases "r = q")
            case True
            with troca(11) n(1,2) have "custo_g a \<le> custo_g n" by auto
            from limite_mono[OF n(3) this] troca(2) True aF show ?thesis by blast
          next
            case False
            with n(1,2) have "n \<in> ?F'" unfolding F' by simp
            with n(2,3) show ?thesis by blast
          qed
        qed
      qed
    qed
    from ob vis have "obj \<notin> nos_visitados ?st'" by simp
    with est oks ini' fro show ?thesis by (simp add: invariante_def)
  qed
qed

subsection \<open>One turn of the main loop\<close>

lemma explorar_vizinhos_invariante:
  assumes "invariante mapa ini obj st ({posicao x} \<times> set vs)"
    and "no_ok mapa ini obj x" and "posicao x \<in> nos_visitados st"
    and "limite mapa ini (posicao x) (custo_g x + 1)"
    and "\<forall>q \<in> set vs. livre mapa q \<and> adjacente (posicao x) q"
  shows "invariante mapa ini obj (explorar_vizinhos obj x vs st) {}"
  using assms
proof (induction vs arbitrary: st)
  case Nil
  then show ?case by simp
next
  case (Cons q vs)
  have "{posicao x} \<times> set (q # vs) = insert (posicao x, q) ({posicao x} \<times> set vs)" by auto
  with Cons.prems(1)
  have i: "invariante mapa ini obj st (insert (posicao x, q) ({posicao x} \<times> set vs))" by simp
  from Cons.prems(5) have q: "livre mapa q" "adjacente (posicao x) q" by simp_all
  from processar_vizinho_invariante[OF i Cons.prems(2,3,4) q]
  have i': "invariante mapa ini obj (processar_vizinho obj x st q) ({posicao x} \<times> set vs)" .
  have v: "posicao x \<in> nos_visitados (processar_vizinho obj x st q)"
    using Cons.prems(3) by (simp add: processar_vizinho_visitados)
  from Cons.prems(5) have r: "\<forall>q \<in> set vs. livre mapa q \<and> adjacente (posicao x) q" by simp
  from Cons.IH[OF i' Cons.prems(2) v Cons.prems(4) r] show ?case by simp
qed

text \<open>
  On every path from the initial position to a position not yet visited there is a
  queued node whose cost is at most its index on the path.
\<close>

lemma fronteira_no_caminho:
  assumes inv: "invariante mapa ini obj st {}"
    and v: "caminho_valido mapa ps" and h: "hd ps = ini" and l: "last ps \<notin> nos_visitados st"
  shows "\<exists>m \<in> set (fila_prioridade st). \<exists>k < length ps. posicao m = ps ! k \<and> custo_g m \<le> int k"
proof -
  let ?V = "nos_visitados st"
  from v have ne: "ps \<noteq> []" by (rule caminho_valido_nao_vazio)
  define k where "k = (LEAST k. ps ! k \<notin> ?V)"
  from l ne have ex: "ps ! (length ps - 1) \<notin> ?V" by (simp add: last_conv_nth)
  then have kv: "ps ! k \<notin> ?V" unfolding k_def by (rule LeastI)
  from ex have "k \<le> length ps - 1" unfolding k_def by (rule Least_le)
  with ne have kl: "k < length ps" by (cases ps) auto
  have antes: "ps ! j \<in> ?V" if "j < k" for j
    using not_less_Least[of j "\<lambda>k. ps ! k \<notin> ?V"] that unfolding k_def by blast
  from inv have ini: "inicio_ok ini st" and fr: "fronteira_ok mapa ini st {}"
    by (simp_all add: invariante_def)
  show ?thesis
  proof (cases k)
    case 0
    with kv h ne have "ini \<notin> ?V" by (simp add: hd_conv_nth)
    with ini obtain n where n: "n \<in> set (fila_prioridade st)" "posicao n = ini" "custo_g n = 0"
      by (auto simp: inicio_ok_def)
    from h ne have "ps ! 0 = ini" by (simp add: hd_conv_nth)
    with n 0 kl show ?thesis by (intro bexI[of _ n] exI[of _ 0]) simp_all
  next
    case (Suc j)
    with antes have jv: "ps ! j \<in> ?V" by simp
    from Suc kl have jl: "Suc j < length ps" by simp
    let ?pre = "take (Suc j) ps"
    have pv: "caminho_valido mapa ?pre" using v by (rule caminho_valido_take) simp
    have "hd ?pre = ini" using h by simp
    moreover have "last ?pre = ps ! j"
    proof -
      from jl have "j < length ps" by simp
      then show ?thesis by (simp add: take_Suc_conv_app_nth)
    qed
    ultimately have ce: "caminho_entre mapa ini (ps ! j) ?pre" using pv by (simp add: caminho_entre_def)
    have lp: "length ?pre = Suc j" using jl by simp
    from kl have "ps ! k \<in> set ps" by simp
    with v have lk: "livre mapa (ps ! k)" by (rule caminho_valido_livre)
    from caminho_valido_adjacente[OF v jl] Suc have ad: "adjacente (ps ! j) (ps ! k)" by simp
    from fr jv lk ad kv obtain n where n: "n \<in> set (fila_prioridade st)" "posicao n = ps ! k"
      "limite mapa ini (ps ! j) (custo_g n)"
      unfolding fronteira_ok_def by blast
    from n(3) ce lp have "custo_g n \<le> int (Suc j)" unfolding limite_def by fastforce
    with n(1,2) kl Suc show ?thesis by (intro bexI[of _ n] exI[of _ k]) simp_all
  qed
qed

text \<open>The queued node of least \<open>f\<close> has reached its position by a shortest path.\<close>

lemma no_minimo_otimo:
  assumes inv: "invariante mapa ini obj st {}"
    and x: "x \<in> set (fila_prioridade st)"
    and mn: "\<forall>y \<in> set (fila_prioridade st). custo_f x \<le> custo_f y"
  shows "limite mapa ini (posicao x) (custo_g x + 1)"
  unfolding limite_def
proof (intro allI impI)
  fix ps assume ce: "caminho_entre mapa ini (posicao x) ps"
  then have v: "caminho_valido mapa ps" and h: "hd ps = ini" and l: "last ps = posicao x"
    by (simp_all add: caminho_entre_def)
  from v have ne: "ps \<noteq> []" by (rule caminho_valido_nao_vazio)
  from inv have e: "estrutura st" and ok: "\<And>n. n \<in> set (fila_prioridade st) \<Longrightarrow> no_ok mapa ini obj n"
    by (simp_all add: invariante_def)
  from e x have "posicao x \<notin> nos_visitados st" by (simp add: estrutura_def)
  with l have "last ps \<notin> nos_visitados st" by simp
  from fronteira_no_caminho[OF inv v h this] obtain m k where
    m: "m \<in> set (fila_prioridade st)" and k: "k < length ps" "posicao m = ps ! k" "custo_g m \<le> int k"
    by blast
  let ?h = "\<lambda>p. calcular_distancia_manhattan p obj"
  from ok[OF m] k(2) have fm: "custo_f m = custo_g m + ?h (ps ! k)" by (simp add: no_ok_def)
  from ok[OF x] have fx: "custo_f x = custo_g x + ?h (posicao x)" by (simp add: no_ok_def)
  from k(1) have "k \<le> length ps - 1" "length ps - 1 < length ps" by simp_all
  from manhattan_caminho[OF v this, of obj] l ne
  have "?h (ps ! k) \<le> ?h (posicao x) + int (length ps - 1 - k)" by (simp add: last_conv_nth)
  with fm k(3) k(1) have "custo_f m \<le> ?h (posicao x) + int (length ps) - 1" by simp
  with mn m fx have "custo_g x + ?h (posicao x) \<le> ?h (posicao x) + int (length ps) - 1" by fastforce
  then show "custo_g x + 1 \<le> int (length ps)" by simp
qed

lemma fila_vazia_inalcancavel:
  assumes inv: "invariante mapa ini obj st {}" and vazia: "fila_prioridade st = []"
  shows "\<not> alcancavel mapa ini obj"
proof
  assume "alcancavel mapa ini obj"
  then obtain ps where "caminho_valido mapa ps" "hd ps = ini" "last ps = obj"
    by (auto simp: alcancavel_def caminho_entre_def)
  moreover from inv have "obj \<notin> nos_visitados st" by (simp add: invariante_def)
  ultimately have "\<exists>m \<in> set (fila_prioridade st). \<exists>k < length ps. posicao m = ps ! k \<and> custo_g m \<le> int k"
    using fronteira_no_caminho[OF inv, of ps] by simp
  with vazia show False by simp
qed

text \<open>Taking the least node from the queue and marking its position as visited.\<close>

lemma retirar_invariante:
  assumes inv: "invariante mapa ini obj st {}"
    and pop: "heappop (fila_prioridade st) = Inr (x, resto)"
    and nobj: "posicao x \<noteq> obj"
    and vs: "set vs = {q. livre mapa q \<and> adjacente (posicao x) q}"
  shows "invariante mapa ini obj
           (st\<lparr>fila_prioridade := resto,
               nos_visitados := insert (posicao x) (nos_visitados st),
               nos_abertos := (nos_abertos st)(posicao x := None)\<rparr>)
           ({posicao x} \<times> set vs) \<and>
         no_ok mapa ini obj x \<and> limite mapa ini (posicao x) (custo_g x + 1)"
proof -
  let ?F = "set (fila_prioridade st)" and ?V = "nos_visitados st"
  let ?st1 = "st\<lparr>fila_prioridade := resto,
               nos_visitados := insert (posicao x) (nos_visitados st),
               nos_abertos := (nos_abertos st)(posicao x := None)\<rparr>"
  from inv have e: "estrutura st" and ok: "\<And>n. n \<in> ?F \<Longrightarrow> no_ok mapa ini obj n"
    and ini: "inicio_ok ini st" and fr: "fronteira_ok mapa ini st {}" and ob: "obj \<notin> ?V"
    by (simp_all add: invariante_def)
  from e have ord: "ordenado_desde (fila_prioridade st) 0" and dis: "distinct (fila_prioridade st)"
    and ab: "\<And>n. n \<in> ?F \<Longrightarrow> nos_abertos st (posicao n) = Some n"
    and nv: "\<And>n. n \<in> ?F \<Longrightarrow> posicao n \<notin> ?V"
    and ba: "\<And>p n. nos_abertos st p = Some n \<Longrightarrow> n \<in> ?F \<and> posicao n = p"
    by (auto simp: estrutura_def)
  from pop have ne: "fila_prioridade st \<noteq> []" by (auto simp: heappop_def split: if_splits)
  from heappop_correto[OF ord ne] pop
  have ord': "ordenado_desde resto 0" and ms: "mset (fila_prioridade st) = add_mset x (mset resto)"
    and mn: "\<forall>y \<in> ?F. custo_f x \<le> custo_f y" by auto
  from ms have ms': "mset (fila_prioridade st) = mset (x # resto)" by simp
  from mset_eq_setD[OF ms'] have F: "?F = insert x (set resto)" by simp
  from mset_eq_imp_distinct_iff[OF ms'] dis have "distinct (x # resto)" by blast
  then have xr: "x \<notin> set resto" and dis': "distinct resto" by simp_all
  from F have xF: "x \<in> ?F" by simp
  have pos_dif: "posicao n \<noteq> posicao x" if "n \<in> set resto" for n
  proof
    assume eq: "posicao n = posicao x"
    from that F have nF: "n \<in> ?F" by simp
    have a1: "nos_abertos st (posicao n) = Some n" by (rule ab[OF nF])
    have a2: "nos_abertos st (posicao x) = Some x" by (rule ab[OF xF])
    from a1 have "nos_abertos st (posicao x) = Some n" unfolding eq .
    with a2 have "n = x" by (metis option.inject)
    with that xr show False by blast
  qed
  have est: "estrutura ?st1"
    unfolding estrutura_def
  proof (intro conjI ballI allI impI)
    show "ordenado_desde (fila_prioridade ?st1) 0" using ord' by simp
    show "distinct (fila_prioridade ?st1)" using dis' by simp
  next
    fix n assume "n \<in> set (fila_prioridade ?st1)"
    then have n: "n \<in> set resto" by simp
    with F have "n \<in> ?F" by simp
    from ab[OF this] pos_dif[OF n] show "nos_abertos ?st1 (posicao n) = Some n" by simp
  next
    fix n assume "n \<in> set (fila_prioridade ?st1)"
    then have n: "n \<in> set resto" by simp
    with F have "n \<in> ?F" by simp
    from nv[OF this] pos_dif[OF n] show "posicao n \<notin> nos_visitados ?st1" by simp
  next
    fix p n assume "nos_abertos ?st1 p = Some n"
    then have pn: "p \<noteq> posicao x" "nos_abertos st p = Some n" by (simp_all split: if_splits)
    from ba[OF pn(2)] pn(1) F show "n \<in> set (fila_prioridade ?st1)" by auto
  next
    fix p n assume "nos_abertos ?st1 p = Some n"
    then have pn: "nos_abertos st p = Some n" by (simp split: if_splits)
    from ba[OF pn] show "posicao n = p" by simp
  qed
  have oks: "\<forall>n \<in> set (fila_prioridade ?st1). no_ok mapa ini obj n"
    using ok F by simp
  have ini': "inicio_ok ini ?st1"
  proof (cases "ini \<in> ?V")
    case True
    then show ?thesis by (simp add: inicio_ok_def)
  next
    case False
    with ini obtain n where n: "n \<in> ?F" "posicao n = ini" "custo_g n = 0"
      by (auto simp: inicio_ok_def)
    show ?thesis
    proof (cases "n = x")
      case True
      with n(2) show ?thesis by (simp add: inicio_ok_def)
    next
      case False
      with n(1) F have "n \<in> set resto" by simp
      with n(2,3) show ?thesis unfolding inicio_ok_def by auto
    qed
  qed
  have fro: "fronteira_ok mapa ini ?st1 ({posicao x} \<times> set vs)"
    unfolding fronteira_ok_def
  proof (intro ballI allI impI)
    fix p r assume p: "p \<in> nos_visitados ?st1"
      and r: "livre mapa r \<and> adjacente p r \<and> (p, r) \<notin> {posicao x} \<times> set vs"
    have pV: "p \<in> ?V"
    proof (rule ccontr)
      assume "p \<notin> ?V"
      with p have "p = posicao x" by simp
      with r vs show False by auto
    qed
    from fr pV r have "r \<in> ?V \<or> (\<exists>n \<in> ?F. posicao n = r \<and> limite mapa ini p (custo_g n))"
      unfolding fronteira_ok_def by blast
    then show "r \<in> nos_visitados ?st1 \<or>
       (\<exists>n \<in> set (fila_prioridade ?st1). posicao n = r \<and> limite mapa ini p (custo_g n))"
    proof
      assume "r \<in> ?V"
      then show ?thesis by simp
    next
      assume "\<exists>n \<in> ?F. posicao n = r \<and> limite mapa ini p (custo_g n)"
      then obtain n where n: "n \<in> ?F" "posicao n = r" "limite mapa ini p (custo_g n)" by blast
      show ?thesis
      proof (cases "n = x")
        case True
        with n(2) show ?thesis by simp
      next
        case False
        with n(1) F have "n \<in> set resto" by simp
        with n(2,3) show ?thesis by auto
      qed
    qed
  qed
  from ob nobj have "obj \<notin> nos_visitados ?st1" by simp
  with est oks ini' fro have "invariante mapa ini obj ?st1 ({posicao x} \<times> set vs)"
    by (simp add: invariante_def)
  moreover from ok[OF xF] have "no_ok mapa ini obj x" .
  moreover from no_minimo_otimo[OF inv xF mn] have "limite mapa ini (posicao x) (custo_g x + 1)" .
  ultimately show ?thesis by blast
qed

text \<open>
  The result of the loop, from any state that satisfies the invariant: never an
  exception; \<open>None\<close> only when the goal cannot be reached; a returned list is a path
  from the initial position to the goal, and no such path is shorter.
\<close>

lemma busca_laco_correto:
  assumes "sem_linha_curta mapa" and "invariante mapa ini obj st {}"
  shows "case busca_laco mapa obj st of
           Inl e \<Rightarrow> False
         | Inr None \<Rightarrow> \<not> alcancavel mapa ini obj
         | Inr (Some c) \<Rightarrow> caminho_entre mapa ini obj c \<and> limite mapa ini obj (int (length c))"
  using assms
proof (induction mapa obj st rule: busca_laco.induct)
  case (1 mapa obj st)
  note slc = "1.prems"(1) and inv = "1.prems"(2)
  show ?case
  proof (cases "fila_prioridade st = []")
    case True
    then have "busca_laco mapa obj st = Inr None" by (subst busca_laco.simps) simp
    with fila_vazia_inalcancavel[OF inv True] show ?thesis by simp
  next
    case False
    from inv have e: "estrutura st" by (simp add: invariante_def)
    then have ord: "ordenado_desde (fila_prioridade st) 0" by (simp add: estrutura_def)
    from heappop_correto[OF ord False] obtain x resto where
      pop: "heappop (fila_prioridade st) = Inr (x, resto)"
      and ms: "mset (fila_prioridade st) = add_mset x (mset resto)"
      and mn: "\<forall>y \<in> set (fila_prioridade st). custo_f x \<le> custo_f y" by blast
    from ms have "mset (fila_prioridade st) = mset (x # resto)" by simp
    from mset_eq_setD[OF this] have xF: "x \<in> set (fila_prioridade st)" by simp
    from inv xF have okx: "no_ok mapa ini obj x" by (simp add: invariante_def)
    show ?thesis
    proof (cases "posicao x = obj")
      case True
      with False pop have r: "busca_laco mapa obj st = Inr (Some (reconstruir_caminho_otimo x))"
        by (subst busca_laco.simps) simp
      from okx have "caminho_valido mapa (rev (cadeia x))" by (simp add: no_ok_def caminho_valido_rev)
      moreover from okx have "hd (rev (cadeia x)) = ini" by (simp add: no_ok_def hd_rev)
      moreover from True have "last (rev (cadeia x)) = obj" by (simp add: last_rev)
      ultimately have ce: "caminho_entre mapa ini obj (reconstruir_caminho_otimo x)"
        by (simp add: caminho_entre_def reconstruir_caminho_otimo_def)
      from no_minimo_otimo[OF inv xF mn] True okx
      have "limite mapa ini obj (int (length (reconstruir_caminho_otimo x)))"
        by (simp add: no_ok_def reconstruir_caminho_otimo_def)
      with ce r show ?thesis by simp
    next
      case nobj: False
      from obter_vizinhos_validos_livres[OF slc, of "posicao x"] obtain vs where
        vv: "obter_vizinhos_validos (posicao x) mapa = Inr vs \<and>
             set vs = {q. livre mapa q \<and> adjacente (posicao x) q}" ..
      from vv have viz: "obter_vizinhos_validos (posicao x) mapa = Inr vs" by (rule conjunct1)
      from vv have vset: "set vs = {q. livre mapa q \<and> adjacente (posicao x) q}" by (rule conjunct2)
      let ?st1 = "st\<lparr>fila_prioridade := resto,
               nos_visitados := insert (posicao x) (nos_visitados st),
               nos_abertos := (nos_abertos st)(posicao x := None)\<rparr>"
      from False pop nobj viz
      have r: "busca_laco mapa obj st = busca_laco mapa obj (explorar_vizinhos obj x vs ?st1)"
        by (subst busca_laco.simps) simp
      from retirar_invariante[OF inv pop nobj vset]
      have i1: "invariante mapa ini obj ?st1 ({posicao x} \<times> set vs)"
        and lim: "limite mapa ini (posicao x) (custo_g x + 1)" by simp_all
      have px: "posicao x \<in> nos_visitados ?st1" by simp
      from vset have all: "\<forall>q \<in> set vs. livre mapa q \<and> adjacente (posicao x) q" by simp
      from explorar_vizinhos_invariante[OF i1 okx px lim all]
      have i2: "invariante mapa ini obj (explorar_vizinhos obj x vs ?st1) {}" .
      from "1.IH"[OF False pop refl nobj viz slc i2] r show ?thesis by simp
    qed
  qed
qed

lemma estado_inicial_invariante:
  assumes "livre mapa ini" and "ini \<noteq> obj"
  defines "n0 \<equiv> novo_no ini 0 (calcular_distancia_manhattan ini obj) None"
  shows "invariante mapa ini obj
           \<lparr> fila_prioridade = heappush [] n0, nos_visitados = {}, nos_abertos = [ini \<mapsto> n0] \<rparr> {}"
proof -
  have o: "ordenado_desde [] 0" by (simp add: ordenado_desde_def)
  from heappush_correto[OF o, of n0]
  have h1: "ordenado_desde (heappush [] n0) 0" by (rule conjunct1)
  from heappush_correto[OF o, of n0]
  have "mset (heappush [] n0) = add_mset n0 (mset [])" by (rule conjunct2)
  then have eq: "heappush [] n0 = [n0]" by simp
  from h1 eq have h: "ordenado_desde [n0] 0" by simp
  have p: "posicao n0 = ini" "custo_g n0 = 0" by (simp_all add: n0_def novo_no_def)
  have ok: "no_ok mapa ini obj n0"
    using assms(1) by (simp add: no_ok_def n0_def novo_no_def)
  show ?thesis
    unfolding invariante_def estrutura_def inicio_ok_def fronteira_ok_def eq
    using h p ok assms(2) by simp
qed

subsection \<open>The search as a whole\<close>

lemma retangular_sem_linha_curta: "retangular mapa \<Longrightarrow> sem_linha_curta mapa"
  by (simp add: retangular_def sem_linha_curta_def list_all_iff)

lemma livre_indice:
  assumes "retangular mapa" and "livre mapa p"
  shows "indice (mapa ! nat (fst p)) (snd p) = Inr (mapa ! nat (fst p) ! nat (snd p))"
proof -
  from assms(2) have b: "0 \<le> fst p" "fst p < int (length mapa)"
    "0 \<le> snd p" "snd p < int (length (mapa ! 0))"
    by (simp_all add: livre_def)
  from b(1,2) have "nat (fst p) < length mapa" by simp
  then have "mapa ! nat (fst p) \<in> set mapa" by (rule nth_mem)
  with assms(1) have "length (mapa ! nat (fst p)) = length (mapa ! 0)"
    by (simp add: retangular_def list_all_iff)
  with b(3,4) show ?thesis by (simp add: indice_nao_negativo)
qed

lemma astar_entradas_validas:
  assumes "retangular mapa" and "livre mapa ini" and "livre mapa obj"
  shows "algoritmo_busca_astar mapa ini obj =
           (if ini = obj then Inr (Some [ini])
            else busca_laco mapa obj
                   \<lparr> fila_prioridade =
                       heappush [] (novo_no ini 0 (calcular_distancia_manhattan ini obj) None),
                     nos_visitados = {},
                     nos_abertos =
                       [ini \<mapsto> novo_no ini 0 (calcular_distancia_manhattan ini obj) None] \<rparr>)"
proof -
  from assms(2) have bi: "0 \<le> fst ini" "fst ini < int (length mapa)"
    "0 \<le> snd ini" "snd ini < int (length (mapa ! 0))"
    "mapa ! nat (fst ini) ! nat (snd ini) \<noteq> CHR ''*''"
    by (simp_all add: livre_def)
  from assms(3) have bo: "0 \<le> fst obj" "fst obj < int (length mapa)"
    "0 \<le> snd obj" "snd obj < int (length (mapa ! 0))"
    "mapa ! nat (fst obj) ! nat (snd obj) \<noteq> CHR ''*''"
    by (simp_all add: livre_def)
  from bi have ne: "mapa \<noteq> []" "mapa ! 0 \<noteq> []" by auto
  have gi: "\<not> (fst ini < 0 \<or> fst ini \<ge> int (length mapa) \<or>
               snd ini < 0 \<or> snd ini \<ge> int (length (mapa ! 0)))"
    using bi by simp
  have go: "\<not> (fst obj < 0 \<or> fst obj \<ge> int (length mapa) \<or>
               snd obj < 0 \<or> snd obj \<ge> int (length (mapa ! 0)))"
    using bo by simp
  show ?thesis
    unfolding algoritmo_busca_astar_def
    using ne gi go bi(5) bo(5)
    by (simp only: livre_indice[OF assms(1,2)] livre_indice[OF assms(1,3)] Let_def
        if_False if_True sum.case simp_thms)
qed

lemma astar_correto:
  assumes "retangular mapa" and "livre mapa ini" and "livre mapa obj"
  shows "case algoritmo_busca_astar mapa ini obj of
           Inl e \<Rightarrow> False
         | Inr None \<Rightarrow> \<not> alcancavel mapa ini obj
         | Inr (Some c) \<Rightarrow> caminho_entre mapa ini obj c \<and> limite mapa ini obj (int (length c))"
proof (cases "ini = obj")
  case True
  have "limite mapa ini ini 1"
    unfolding limite_def
  proof (intro allI impI)
    fix ps assume "caminho_entre mapa ini ini ps"
    then have "ps \<noteq> []" by (auto simp: caminho_entre_def)
    then show "1 \<le> int (length ps)" by (cases ps) auto
  qed
  moreover have "caminho_entre mapa ini ini [ini]"
    using assms(2) by (simp add: caminho_entre_def)
  moreover have "algoritmo_busca_astar mapa ini obj = Inr (Some [ini])"
    unfolding astar_entradas_validas[OF assms] using True by (simp only: if_True simp_thms)
  ultimately show ?thesis
    using True by simp
next
  case False
  have "invariante mapa ini obj
          \<lparr> fila_prioridade =
              heappush [] (novo_no ini 0 (calcular_distancia_manhattan ini obj) None),
            nos_visitados = {},
            nos_abertos =
              [ini \<mapsto> novo_no ini 0 (calcular_distancia_manhattan ini obj) None] \<rparr> {}"
    by (rule estado_inicial_invariante[OF assms(2) False])
  from busca_laco_correto[OF retangular_sem_linha_curta[OF assms(1)] this]
  show ?thesis
    using False by (simp add: astar_entradas_validas[OF assms])
qed

lemma alcancavel_livres:
  assumes "alcancavel mapa ini obj"
  shows "livre mapa ini" and "livre mapa obj"
proof -
  from assms obtain ps where ps: "caminho_valido mapa ps" "hd ps = ini" "last ps = obj"
    by (auto simp: alcancavel_def caminho_entre_def)
  from ps(1) have ne: "ps \<noteq> []" by (rule caminho_valido_nao_vazio)
  from ne ps(2) have "ini \<in> set ps" by (metis hd_in_set)
  then show "livre mapa ini" by (rule caminho_valido_livre[OF ps(1)])
  from ne ps(3) have "obj \<in> set ps" by (metis last_in_set)
  then show "livre mapa obj" by (rule caminho_valido_livre[OF ps(1)])
qed

text \<open>Two small grids: a room with a pillar in the middle, and a corridor cut by a wall.\<close>

definition sala_com_pilar :: mapa where
  "sala_com_pilar = [''   '', '' * '', ''   '']"

definition corredor_cortado :: mapa where
  "corredor_cortado = ['' * '']"

text \<open>
  C1. On a rectangular grid, whenever the goal can be reached from the initial position
  through free cells joined by single steps along a row or a column,
  \<open>algoritmo_busca_astar\<close> returns a path from the initial position to the goal, and no
  path between the two has fewer cells: the returned length is the shortest-path
  distance. When both positions are free cells, it returns \<open>None\<close> exactly when the goal
  cannot be reached.
\<close>

theorem astar_caminho_minimo:
  assumes "retangular mapa"
  shows "(alcancavel mapa ini obj \<longrightarrow>
            (\<exists>caminho. algoritmo_busca_astar mapa ini obj = Inr (Some caminho) \<and>
               caminho_entre mapa ini obj caminho \<and>
               (\<forall>ps. caminho_entre mapa ini obj ps \<longrightarrow> length caminho \<le> length ps))) \<and>
         (livre mapa ini \<and> livre mapa obj \<longrightarrow>
            (algoritmo_busca_astar mapa ini obj = Inr None) = (\<not> alcancavel mapa ini obj))"
proof -
  have correto: "case algoritmo_busca_astar mapa ini obj of
           Inl e \<Rightarrow> False
         | Inr None \<Rightarrow> \<not> alcancavel mapa ini obj
         | Inr (Some c) \<Rightarrow> caminho_entre mapa ini obj c \<and> limite mapa ini obj (int (length c))"
    if "livre mapa ini" and "livre mapa obj"
    using astar_correto[OF assms that] .
  have parte1: "\<exists>caminho. algoritmo_busca_astar mapa ini obj = Inr (Some caminho) \<and>
               caminho_entre mapa ini obj caminho \<and>
               (\<forall>ps. caminho_entre mapa ini obj ps \<longrightarrow> length caminho \<le> length ps)"
    if alc: "alcancavel mapa ini obj"
  proof -
    note c = correto[OF alcancavel_livres[OF alc]]
    show ?thesis
    proof (cases "algoritmo_busca_astar mapa ini obj")
      case (Inl e)
      with c show ?thesis by simp
    next
      case (Inr r)
      show ?thesis
      proof (cases r)
        case None
        with Inr c alc show ?thesis by simp
      next
        case (Some caminho)
        with Inr c have "caminho_entre mapa ini obj caminho"
          and "limite mapa ini obj (int (length caminho))" by simp_all
        with Inr Some show ?thesis by (auto simp: limite_def)
      qed
    qed
  qed
  have parte2: "(algoritmo_busca_astar mapa ini obj = Inr None) = (\<not> alcancavel mapa ini obj)"
    if l: "livre mapa ini" "livre mapa obj"
  proof
    assume "algoritmo_busca_astar mapa ini obj = Inr None"
    with correto[OF l] show "\<not> alcancavel mapa ini obj" by simp
  next
    assume n: "\<not> alcancavel mapa ini obj"
    note c = correto[OF l]
    show "algoritmo_busca_astar mapa ini obj = Inr None"
    proof (cases "algoritmo_busca_astar mapa ini obj")
      case (Inl e)
      with c show ?thesis by simp
    next
      case (Inr r)
      show ?thesis
      proof (cases r)
        case None
        with Inr show ?thesis by simp
      next
        case (Some caminho)
        with Inr c have "caminho_entre mapa ini obj caminho" by simp
        with n show ?thesis by (auto simp: alcancavel_def)
      qed
    qed
  qed
  from parte1 parte2 show ?thesis by blast
qed

theorem astar_caminho_minimo_witness:
  "retangular sala_com_pilar \<and> alcancavel sala_com_pilar (0, 0) (2, 2) \<and>
   (\<exists>caminho. algoritmo_busca_astar sala_com_pilar (0, 0) (2, 2) = Inr (Some caminho) \<and>
      caminho_entre sala_com_pilar (0, 0) (2, 2) caminho \<and> length caminho \<le> 5) \<and>
   retangular corredor_cortado \<and> livre corredor_cortado (0, 0) \<and>
   livre corredor_cortado (0, 2) \<and>
   algoritmo_busca_astar corredor_cortado (0, 0) (0, 2) = Inr None \<and>
   \<not> alcancavel corredor_cortado (0, 0) (0, 2)"
proof -
  have r: "retangular sala_com_pilar" by code_simp
  have p: "caminho_entre sala_com_pilar (0, 0) (2, 2) [(0, 0), (0, 1), (0, 2), (1, 2), (2, 2)]"
    by code_simp
  then have a: "alcancavel sala_com_pilar (0, 0) (2, 2)"
    unfolding alcancavel_def by (rule exI)
  from astar_caminho_minimo[OF r, of "(0, 0)" "(2, 2)"] a
  obtain caminho where c:
    "algoritmo_busca_astar sala_com_pilar (0, 0) (2, 2) = Inr (Some caminho)"
    "caminho_entre sala_com_pilar (0, 0) (2, 2) caminho"
    "\<forall>ps. caminho_entre sala_com_pilar (0, 0) (2, 2) ps \<longrightarrow> length caminho \<le> length ps"
    by blast
  from c(3) p have "length caminho \<le> length [(0, 0), (0, 1), (0, 2), (1, 2), (2, 2) :: posicao]"
    by blast
  then have "length caminho \<le> 5" by simp
  with c(1,2) have e: "\<exists>caminho.
      algoritmo_busca_astar sala_com_pilar (0, 0) (2, 2) = Inr (Some caminho) \<and>
      caminho_entre sala_com_pilar (0, 0) (2, 2) caminho \<and> length caminho \<le> 5"
    by blast
  have r2: "retangular corredor_cortado" by code_simp
  have l1: "livre corredor_cortado (0, 0)" by code_simp
  have l2: "livre corredor_cortado (0, 2)" by code_simp
  have n: "algoritmo_busca_astar corredor_cortado (0, 0) (0, 2) = Inr None" by code_simp
  from astar_caminho_minimo[OF r2, of "(0, 0)" "(0, 2)"] l1 l2 n
  have u: "\<not> alcancavel corredor_cortado (0, 0) (0, 2)" by blast
  from r a e r2 l1 l2 n u show ?thesis by (intro conjI)
qed

end
